theory Spec2Isabelle
  imports Main "HOL-Library.Multiset"
begin

section \<open>JavaScript strings\<close>

text \<open>
  A JavaScript string is a sequence of UTF-16 code units. The code units are kept as
  natural numbers, so that the source's literals, the characters \<open>btoa\<close> refuses
  (code units above 255) and the characters \<open>escapeHtml\<close> rewrites can all be told apart.
  \<open>asc\<close> turns an ASCII literal of the source into its code units.
\<close>

type_synonym jsstring = "nat list"

definition asc :: "string \<Rightarrow> jsstring" where
  "asc s = map of_char s"

text \<open>
  \<open>String.prototype.localeCompare\<close> belongs to the host, and its order depends on the
  host's collation. The functions that call it take it as the parameter \<open>lc\<close>; the sign
  of \<open>lc a b\<close> is read as the host's answer. \<open>ordinal_compare\<close> is the comparison by
  code units, the collation used at concrete inputs.
\<close>

type_synonym collator = "jsstring \<Rightarrow> jsstring \<Rightarrow> int"

fun ordinal_compare :: collator where
  "ordinal_compare [] [] = 0"
| "ordinal_compare [] (y # ys) = -1"
| "ordinal_compare (x # xs) [] = 1"
| "ordinal_compare (x # xs) (y # ys) =
     (if x < y then -1 else if y < x then 1 else ordinal_compare xs ys)"

text \<open>
  What the sorting theorems ask of the host's collation: swapping the arguments swaps
  the sign of the answer, and "not after" is transitive. It may answer 0 on two
  different strings, as the host does on strings that differ in an ignorable character.
\<close>

definition collation :: "collator \<Rightarrow> bool" where
  "collation lc =
     ((\<forall>a b. (lc a b < 0) = (0 < lc b a)) \<and>
      (\<forall>a b c. lc a b \<le> 0 \<and> lc b c \<le> 0 \<longrightarrow> lc a c \<le> 0))"


section \<open>The task application: data model\<close>

text \<open>
  A task object as \<open>confirmTask\<close> builds it. The field \<open>id\<close> of the source is
  \<open>taskId\<close> here (\<open>id\<close> is the identity function of HOL).
\<close>

record task =
  taskId :: int
  task :: jsstring
  project :: jsstring
  organization :: jsstring
  dueDate :: jsstring
  completed :: bool
  createdAt :: jsstring

section \<open>Sorting\<close>

text \<open>
  \<open>Array.prototype.sort\<close> with a comparator: the language fixes that the sort is stable
  and that, for a consistent comparator, the result is sorted. The result is then the one
  stable ordering, which a stable insertion sort computes: each element goes before the
  first later element it does not compare greater than.
\<close>

fun insert_by :: "('a \<Rightarrow> 'a \<Rightarrow> int) \<Rightarrow> 'a \<Rightarrow> 'a list \<Rightarrow> 'a list" where
  "insert_by cmp x [] = [x]"
| "insert_by cmp x (y # ys) =
     (if cmp x y \<le> 0 then x # y # ys else y # insert_by cmp x ys)"

definition js_sort :: "('a \<Rightarrow> 'a \<Rightarrow> int) \<Rightarrow> 'a list \<Rightarrow> 'a list" where
  "js_sort cmp xs = foldr (insert_by cmp) xs []"

text \<open>The comparator of \<open>sortTasks\<close> in mode \<open>'date'\<close>.\<close>

definition compareByDate :: "collator \<Rightarrow> task \<Rightarrow> task \<Rightarrow> int" where
  "compareByDate lc a b =
     (if dueDate a = [] \<and> dueDate b = [] then lc (createdAt b) (createdAt a)
      else if dueDate a = [] then 1
      else if dueDate b = [] then -1
      else lc (dueDate a) (dueDate b))"

text \<open>The comparator of \<open>sortTasks\<close> in the other mode.\<close>

definition compareByProject :: "collator \<Rightarrow> task \<Rightarrow> task \<Rightarrow> int" where
  "compareByProject lc a b =
     (if project a \<noteq> project b then
        (if project a = [] then 1
         else if project b = [] then -1
         else lc (project a) (project b))
      else if dueDate a = [] \<and> dueDate b = [] then lc (createdAt b) (createdAt a)
      else if dueDate a = [] then 1
      else if dueDate b = [] then -1
      else lc (dueDate a) (dueDate b))"

text \<open>
  \<open>sortTasks\<close> reads the globals \<open>currentSortMode\<close> and \<open>tasks\<close>; here they are
  the arguments \<open>mode\<close> and \<open>ts\<close>. It sorts a copy, so the list it is given stays as it is.
\<close>

definition sortTasks :: "collator \<Rightarrow> jsstring \<Rightarrow> task list \<Rightarrow> task list" where
  "sortTasks lc mode ts =
     (if mode = asc ''date'' then js_sort (compareByDate lc) ts
      else js_sort (compareByProject lc) ts)"

section \<open>Numbers as text\<close>

text \<open>
  The numbers of the application are task ids, integers well inside the range where a
  double is exact; they are kept as \<open>int\<close>. \<open>numberToString\<close> is the decimal text that
  string interpolation and \<open>JSON.stringify\<close> give such a number.
\<close>

fun digits :: "nat \<Rightarrow> jsstring" where
  "digits n = (if n < 10 then [48 + n] else digits (n div 10) @ [48 + n mod 10])"

declare digits.simps [simp del]

definition numberToString :: "int \<Rightarrow> jsstring" where
  "numberToString i = (if i < 0 then 45 # digits (nat (- i)) else digits (nat i))"

definition is_digit :: "nat \<Rightarrow> bool" where
  "is_digit c = (48 \<le> c \<and> c \<le> 57)"

definition digits_value :: "jsstring \<Rightarrow> nat" where
  "digits_value ds = foldl (\<lambda>a d. 10 * a + (d - 48)) 0 ds"

section \<open>JSON\<close>

text \<open>
  The values \<open>JSON.parse\<close> returns and \<open>JSON.stringify\<close> prints. An object is the list
  of its members in the order written. \<open>JNum\<close> is a number written as an integer;
  \<open>JReal\<close> keeps the text of a number written with a fraction or an exponent, whose
  value is a double that this development does not compute.
\<close>

datatype json =
    JNull
  | JBool bool
  | JNum int
  | JReal jsstring
  | JStr jsstring
  | JArr "json list"
  | JObj "(jsstring \<times> json) list"

subsection \<open>JSON.stringify\<close>

definition hex_digit :: "nat \<Rightarrow> nat" where
  "hex_digit d = (if d < 10 then 48 + d else 87 + d)"

definition unicode_escape :: "nat \<Rightarrow> jsstring" where
  "unicode_escape c =
     [92, 117, hex_digit (c div 4096 mod 16), hex_digit (c div 256 mod 16),
      hex_digit (c div 16 mod 16), hex_digit (c mod 16)]"

definition is_high_surrogate :: "nat \<Rightarrow> bool" where
  "is_high_surrogate c = (55296 \<le> c \<and> c \<le> 56319)"

definition is_low_surrogate :: "nat \<Rightarrow> bool" where
  "is_low_surrogate c = (56320 \<le> c \<and> c \<le> 57343)"

text \<open>
  One code unit that is not half of a surrogate pair, as \<open>QuoteJSONString\<close> writes it:
  the short escapes, \<open>\uXXXX\<close> for the other control characters and for a lone
  surrogate, and the code unit itself otherwise.
\<close>

definition quote_unit :: "nat \<Rightarrow> jsstring" where
  "quote_unit c =
     (if c = 8 then [92, 98]
      else if c = 9 then [92, 116]
      else if c = 10 then [92, 110]
      else if c = 12 then [92, 102]
      else if c = 13 then [92, 114]
      else if c = 34 then [92, 34]
      else if c = 92 then [92, 92]
      else if c < 32 \<or> is_high_surrogate c \<or> is_low_surrogate c then unicode_escape c
      else [c])"

fun quoteJSON :: "jsstring \<Rightarrow> jsstring" where
  "quoteJSON [] = []"
| "quoteJSON [c] = quote_unit c"
| "quoteJSON (c # d # cs) =
     (if is_high_surrogate c \<and> is_low_surrogate d then c # d # quoteJSON cs
      else quote_unit c @ quoteJSON (d # cs))"

fun JSON_stringify :: "json \<Rightarrow> jsstring"
  and stringify_elements :: "json list \<Rightarrow> jsstring"
  and stringify_members :: "(jsstring \<times> json) list \<Rightarrow> jsstring"
where
  "JSON_stringify JNull = asc ''null''"
| "JSON_stringify (JBool b) = (if b then asc ''true'' else asc ''false'')"
| "JSON_stringify (JNum n) = numberToString n"
| "JSON_stringify (JReal t) = t"
| "JSON_stringify (JStr s) = 34 # quoteJSON s @ [34]"
| "JSON_stringify (JArr vs) = 91 # stringify_elements vs"
| "JSON_stringify (JObj kvs) = 123 # stringify_members kvs"
| "stringify_elements [] = [93]"
| "stringify_elements [v] = JSON_stringify v @ [93]"
| "stringify_elements (v # w # vs) = JSON_stringify v @ 44 # stringify_elements (w # vs)"
| "stringify_members [] = [125]"
| "stringify_members [(k, v)] = 34 # quoteJSON k @ [34, 58] @ JSON_stringify v @ [125]"
| "stringify_members ((k, v) # m # kvs) =
     34 # quoteJSON k @ [34, 58] @ JSON_stringify v @ 44 # stringify_members (m # kvs)"

subsection \<open>JSON.parse\<close>

text \<open>
  The parser reads the JSON grammar by recursive descent. A string body is read after
  its opening quote, up to and including the closing quote.
\<close>

definition hex_value :: "nat \<Rightarrow> nat option" where
  "hex_value c =
     (if 48 \<le> c \<and> c \<le> 57 then Some (c - 48)
      else if 97 \<le> c \<and> c \<le> 102 then Some (c - 87)
      else if 65 \<le> c \<and> c \<le> 70 then Some (c - 55)
      else None)"

definition hex4_value :: "nat \<Rightarrow> nat \<Rightarrow> nat \<Rightarrow> nat \<Rightarrow> nat option" where
  "hex4_value a b c d =
     (case (hex_value a, hex_value b, hex_value c, hex_value d) of
        (Some p, Some q, Some r, Some s) \<Rightarrow> Some (p * 4096 + q * 256 + r * 16 + s)
      | _ \<Rightarrow> None)"

definition simple_escape :: "nat \<Rightarrow> nat option" where
  "simple_escape e =
     (if e = 34 then Some 34
      else if e = 92 then Some 92
      else if e = 47 then Some 47
      else if e = 98 then Some 8
      else if e = 102 then Some 12
      else if e = 110 then Some 10
      else if e = 114 then Some 13
      else if e = 116 then Some 9
      else None)"

definition cons_result :: "nat \<Rightarrow> (jsstring \<times> jsstring) option \<Rightarrow> (jsstring \<times> jsstring) option" where
  "cons_result c r = (case r of None \<Rightarrow> None | Some (str, rest) \<Rightarrow> Some (c # str, rest))"

fun parse_chars :: "jsstring \<Rightarrow> (jsstring \<times> jsstring) option" where
  "parse_chars [] = None"
| "parse_chars (c # cs) =
     (if c = 34 then Some ([], cs)
      else if c = 92 then
        (case cs of
           [] \<Rightarrow> None
         | e # r \<Rightarrow>
             if e = 117 then
               (case r of
                  h1 # h2 # h3 # h4 # r' \<Rightarrow>
                    (case hex4_value h1 h2 h3 h4 of
                       None \<Rightarrow> None
                     | Some v \<Rightarrow> cons_result v (parse_chars r'))
                | _ \<Rightarrow> None)
             else
               (case simple_escape e of
                  None \<Rightarrow> None
                | Some v \<Rightarrow> cons_result v (parse_chars r)))
      else if c < 32 then None
      else cons_result c (parse_chars cs))"

text \<open>
  A number: an optional minus, an integer part without a leading zero, an optional
  fraction and an optional exponent.
\<close>

definition parse_int_part :: "jsstring \<Rightarrow> (jsstring \<times> jsstring) option" where
  "parse_int_part s =
     (case s of
        [] \<Rightarrow> None
      | c # cs \<Rightarrow>
          if c = 48 then Some ([48], cs)
          else if is_digit c then Some (takeWhile is_digit s, dropWhile is_digit s)
          else None)"

definition parse_fraction :: "jsstring \<Rightarrow> (jsstring \<times> jsstring) option" where
  "parse_fraction s =
     (case s of
        [] \<Rightarrow> Some ([], s)
      | c # cs \<Rightarrow>
          if c = 46 then
            (if takeWhile is_digit cs = [] then None
             else Some (c # takeWhile is_digit cs, dropWhile is_digit cs))
          else Some ([], s))"

definition parse_exponent :: "jsstring \<Rightarrow> (jsstring \<times> jsstring) option" where
  "parse_exponent s =
     (case s of
        [] \<Rightarrow> Some ([], s)
      | c # cs \<Rightarrow>
          if c = 101 \<or> c = 69 then
            (let sgn = (case cs of [] \<Rightarrow> [] | g # _ \<Rightarrow> if g = 43 \<or> g = 45 then [g] else []);
                 ds = drop (length sgn) cs
             in if takeWhile is_digit ds = [] then None
                else Some (c # sgn @ takeWhile is_digit ds, dropWhile is_digit ds))
          else Some ([], s))"

definition parse_number :: "jsstring \<Rightarrow> (json \<times> jsstring) option" where
  "parse_number s =
     (let neg = (case s of [] \<Rightarrow> False | c # _ \<Rightarrow> c = 45);
          s1 = (if neg then tl s else s)
      in case parse_int_part s1 of
           None \<Rightarrow> None
         | Some (ds, s2) \<Rightarrow>
             (case parse_fraction s2 of
                None \<Rightarrow> None
              | Some (fr, s3) \<Rightarrow>
                  (case parse_exponent s3 of
                     None \<Rightarrow> None
                   | Some (ex, s4) \<Rightarrow>
                       if fr = [] \<and> ex = [] then
                         Some (JNum (if neg then - int (digits_value ds) else int (digits_value ds)), s4)
                       else Some (JReal ((if neg then [45] else []) @ ds @ fr @ ex), s4))))"

text \<open>The values that begin with neither a bracket, a brace nor a quote.\<close>

definition parse_scalar :: "jsstring \<Rightarrow> (json \<times> jsstring) option" where
  "parse_scalar s =
     (if take 4 s = asc ''true'' then Some (JBool True, drop 4 s)
      else if take 5 s = asc ''false'' then Some (JBool False, drop 5 s)
      else if take 4 s = asc ''null'' then Some (JNull, drop 4 s)
      else parse_number s)"

fun skip_ws :: "jsstring \<Rightarrow> jsstring" where
  "skip_ws [] = []"
| "skip_ws (c # cs) = (if c = 32 \<or> c = 9 \<or> c = 10 \<or> c = 13 then skip_ws cs else c # cs)"

text \<open>
  The recursion on nested values is bounded by a counter that every call decreases.
  \<open>Fuel\<close> is the answer of a call that ran out of it; \<open>JSON_parse\<close> below starts with
  more than any text can use.
\<close>

datatype parse_error = Malformed | Fuel

fun parse_value :: "nat \<Rightarrow> jsstring \<Rightarrow> parse_error + (json \<times> jsstring)"
  and parse_elements :: "nat \<Rightarrow> jsstring \<Rightarrow> parse_error + (json list \<times> jsstring)"
  and parse_members :: "nat \<Rightarrow> jsstring \<Rightarrow> parse_error + ((jsstring \<times> json) list \<times> jsstring)"
where
  "parse_value 0 s = Inl Fuel"
| "parse_value (Suc n) s =
     (case skip_ws s of
        [] \<Rightarrow> Inl Malformed
      | c # cs \<Rightarrow>
          if c = 91 then
            (case skip_ws cs of
               [] \<Rightarrow> Inl Malformed
             | d # r \<Rightarrow>
                 if d = 93 then Inr (JArr [], r)
                 else (case parse_elements n cs of
                         Inl e \<Rightarrow> Inl e
                       | Inr (vs, r') \<Rightarrow> Inr (JArr vs, r')))
          else if c = 123 then
            (case skip_ws cs of
               [] \<Rightarrow> Inl Malformed
             | d # r \<Rightarrow>
                 if d = 125 then Inr (JObj [], r)
                 else (case parse_members n cs of
                         Inl e \<Rightarrow> Inl e
                       | Inr (kvs, r') \<Rightarrow> Inr (JObj kvs, r')))
          else if c = 34 then
            (case parse_chars cs of
               None \<Rightarrow> Inl Malformed
             | Some (str, r) \<Rightarrow> Inr (JStr str, r))
          else
            (case parse_scalar (c # cs) of
               None \<Rightarrow> Inl Malformed
             | Some res \<Rightarrow> Inr res))"
| "parse_elements 0 s = Inl Fuel"
| "parse_elements (Suc n) s =
     (case parse_value n s of
        Inl e \<Rightarrow> Inl e
      | Inr (v, r) \<Rightarrow>
          (case skip_ws r of
             [] \<Rightarrow> Inl Malformed
           | c # r' \<Rightarrow>
               if c = 44 then
                 (case parse_elements n r' of
                    Inl e \<Rightarrow> Inl e
                  | Inr (vs, r'') \<Rightarrow> Inr (v # vs, r''))
               else if c = 93 then Inr ([v], r')
               else Inl Malformed))"
| "parse_members 0 s = Inl Fuel"
| "parse_members (Suc n) s =
     (case skip_ws s of
        [] \<Rightarrow> Inl Malformed
      | q # cs \<Rightarrow>
          if q = 34 then
            (case parse_chars cs of
               None \<Rightarrow> Inl Malformed
             | Some (k, r) \<Rightarrow>
                 (case skip_ws r of
                    [] \<Rightarrow> Inl Malformed
                  | c # r1 \<Rightarrow>
                      if c = 58 then
                        (case parse_value n r1 of
                           Inl e \<Rightarrow> Inl e
                         | Inr (v, r2) \<Rightarrow>
                             (case skip_ws r2 of
                                [] \<Rightarrow> Inl Malformed
                              | d # r3 \<Rightarrow>
                                  if d = 44 then
                                    (case parse_members n r3 of
                                       Inl e \<Rightarrow> Inl e
                                     | Inr (kvs, r4) \<Rightarrow> Inr ((k, v) # kvs, r4))
                                  else if d = 125 then Inr ([(k, v)], r3)
                                  else Inl Malformed))
                      else Inl Malformed))
          else Inl Malformed)"

text \<open>
  The errors a handler can meet, as values: \<open>SyntaxError\<close> of \<open>JSON.parse\<close>,
  \<open>InvalidCharacterError\<close> of \<open>btoa\<close> and \<open>atob\<close>, \<open>TypeError\<close> of a property read on
  \<open>null\<close>, and \<open>StorageError\<close> for a storage call that throws or rejects.
\<close>

datatype error = SyntaxError | InvalidCharacterError | TypeError | StorageError

definition JSON_parse :: "jsstring \<Rightarrow> error + json" where
  "JSON_parse s =
     (case parse_value (2 * length s + 2) s of
        Inl e \<Rightarrow> Inl SyntaxError
      | Inr (v, r) \<Rightarrow> if skip_ws r = [] then Inr v else Inl SyntaxError)"

section \<open>Base64: btoa and atob\<close>

definition b64_char :: "nat \<Rightarrow> nat" where
  "b64_char i =
     (if i < 26 then 65 + i
      else if i < 52 then 71 + i
      else if i < 62 then i - 4
      else if i = 62 then 43
      else 47)"

definition b64_index :: "nat \<Rightarrow> nat option" where
  "b64_index c =
     (if 65 \<le> c \<and> c \<le> 90 then Some (c - 65)
      else if 97 \<le> c \<and> c \<le> 122 then Some (c - 71)
      else if 48 \<le> c \<and> c \<le> 57 then Some (c + 4)
      else if c = 43 then Some 62
      else if c = 47 then Some 63
      else None)"

fun b64_encode :: "nat list \<Rightarrow> jsstring" where
  "b64_encode [] = []"
| "b64_encode [a] = [b64_char (a div 4), b64_char (a mod 4 * 16), 61, 61]"
| "b64_encode [a, b] =
     [b64_char (a div 4), b64_char (a mod 4 * 16 + b div 16), b64_char (b mod 16 * 4), 61]"
| "b64_encode (a # b # c # bs) =
     b64_char (a div 4) # b64_char (a mod 4 * 16 + b div 16) #
     b64_char (b mod 16 * 4 + c div 64) # b64_char (c mod 64) # b64_encode bs"

text \<open>
  \<open>btoa\<close> takes each code unit as one byte and throws \<open>InvalidCharacterError\<close> when a
  code unit is above 255.
\<close>

definition btoa :: "jsstring \<Rightarrow> error + jsstring" where
  "btoa s = (if list_ex (\<lambda>c. 255 < c) s then Inl InvalidCharacterError else Inr (b64_encode s))"

fun b64_decode :: "nat list \<Rightarrow> nat list" where
  "b64_decode (p # q # r # s # rest) =
     (p * 4 + q div 16) # (q mod 16 * 16 + r div 4) # (r mod 4 * 64 + s) # b64_decode rest"
| "b64_decode [p, q, r] = [p * 4 + q div 16, q mod 16 * 16 + r div 4]"
| "b64_decode [p, q] = [p * 4 + q div 16]"
| "b64_decode [p] = []"
| "b64_decode [] = []"

definition is_ascii_whitespace :: "nat \<Rightarrow> bool" where
  "is_ascii_whitespace c = (c = 9 \<or> c = 10 \<or> c = 12 \<or> c = 13 \<or> c = 32)"

definition strip_padding :: "jsstring \<Rightarrow> jsstring" where
  "strip_padding d =
     (if length d mod 4 = 0 \<and> d \<noteq> [] \<and> last d = 61 then
        (if butlast d \<noteq> [] \<and> last (butlast d) = 61 then butlast (butlast d) else butlast d)
      else d)"

text \<open>
  \<open>atob\<close> is the forgiving decoder: it drops ASCII whitespace, takes off one or two
  closing \<open>=\<close> when the length is a multiple of four, refuses a length of one more than
  a multiple of four and any character outside the alphabet, and drops the bits left
  over at the end.
\<close>

definition atob :: "jsstring \<Rightarrow> error + jsstring" where
  "atob s =
     (let d = strip_padding (filter (\<lambda>c. \<not> is_ascii_whitespace c) s)
      in if length d mod 4 = 1 then Inl InvalidCharacterError
         else if list_ex (\<lambda>c. b64_index c = None) d then Inl InvalidCharacterError
         else Inr (b64_decode (map (\<lambda>c. the (b64_index c)) d)))"

section \<open>String helpers of the language and of the document\<close>

text \<open>The white space and line terminators that \<open>String.prototype.trim\<close> removes.\<close>

definition is_js_space :: "nat \<Rightarrow> bool" where
  "is_js_space c =
     (c = 9 \<or> c = 10 \<or> c = 11 \<or> c = 12 \<or> c = 13 \<or> c = 32 \<or> c = 160 \<or> c = 5760 \<or>
      (8192 \<le> c \<and> c \<le> 8202) \<or> c = 8232 \<or> c = 8233 \<or> c = 8239 \<or> c = 8287 \<or>
      c = 12288 \<or> c = 65279)"

definition trim :: "jsstring \<Rightarrow> jsstring" where
  "trim s = rev (dropWhile is_js_space (rev (dropWhile is_js_space s)))"

text \<open>
  \<open>escapeHtml\<close> sets the text as \<open>textContent\<close> of a fresh element and reads
  \<open>innerHTML\<close> back. The document serialises a text node by writing \<open>&amp;\<close> for
  \<open>&\<close>, \<open>&nbsp;\<close> for the no-break space, \<open>&lt;\<close> for \<open><\<close> and \<open>&gt;\<close> for \<open>>\<close>.
\<close>

definition escape_unit :: "nat \<Rightarrow> jsstring" where
  "escape_unit c =
     (if c = 38 then asc ''&amp;''
      else if c = 160 then asc ''&nbsp;''
      else if c = 60 then asc ''&lt;''
      else if c = 62 then asc ''&gt;''
      else [c])"

definition escapeHtml :: "jsstring \<Rightarrow> jsstring" where
  "escapeHtml s = concat (map escape_unit s)"

section \<open>The host of the task application\<close>

text \<open>
  What the browser supplies and the source only calls: the collation of
  \<open>localeCompare\<close>; the \<open>Date\<close> functions, on time values in milliseconds since the
  epoch (\<open>dateParse\<close> answers \<open>None\<close> where \<open>new Date(s)\<close> is an invalid date;
  \<open>setHoursZero\<close> is \<open>setHours(0, 0, 0, 0)\<close>, \<open>nextDay\<close> is
  \<open>setDate(getDate() + 1)\<close>, \<open>toLocaleDateString\<close> takes whether the year is asked
  for); and whether \<open>window.creationStorage\<close> exists.
\<close>

record host =
  localeCompare :: collator
  dateParse :: "jsstring \<Rightarrow> int option"
  setHoursZero :: "int \<Rightarrow> int"
  nextDay :: "int \<Rightarrow> int"
  getFullYear :: "int \<Rightarrow> int"
  toLocaleDateString :: "bool \<Rightarrow> int \<Rightarrow> jsstring"
  toISOString :: "int \<Rightarrow> jsstring"
  creationStorage :: bool

text \<open>
  The one key \<open>dev_tasks_data\<close> of the storage: its value, if any, and whether the
  storage refuses its calls (a full or disabled storage throws or rejects).
\<close>

record store =
  item :: "jsstring option"
  failing :: bool

definition setItem :: "store \<Rightarrow> jsstring \<Rightarrow> error + store" where
  "setItem st v = (if failing st then Inl StorageError else Inr (st\<lparr>item := Some v\<rparr>))"

definition getItem :: "store \<Rightarrow> error + jsstring option" where
  "getItem st = (if failing st then Inl StorageError else Inr (item st))"

section \<open>The state of the task application\<close>

record draft =
  draft_task :: jsstring
  draft_project :: jsstring
  draft_organization :: jsstring
  draft_dueDate :: jsstring

datatype view = MainView | AddView | EditView

text \<open>
  The globals of the script (\<open>tasks\<close> to \<open>editingTaskId\<close>), the storage, and the part
  of the document the handlers write that the properties below are about: the view
  shown, whether \<open>setupEventListeners\<close> has bound the handlers, the markup of the
  task list, the empty-state indicator and the confirm button. The texts of the voice
  status, of the preview and of the sort button are not kept.
\<close>

record world =
  tasks :: "task list"
  projects :: "jsstring list"
  organizations :: "jsstring list"
  currentSortMode :: jsstring
  isListening :: bool
  currentTaskDraft :: draft
  editingTaskId :: "int option"
  storage :: store
  activeView :: view
  listenersBound :: bool
  taskListHTML :: jsstring
  emptyStateVisible :: bool
  confirmTaskBtnDisabled :: bool

definition empty_draft :: draft where
  "empty_draft = \<lparr>draft_task = [], draft_project = [], draft_organization = [], draft_dueDate = []\<rparr>"

text \<open>The globals as the script initialises them, over a given storage.\<close>

definition initial_world :: "store \<Rightarrow> world" where
  "initial_world st =
     \<lparr>tasks = [], projects = [], organizations = [], currentSortMode = asc ''date'',
      isListening = False, currentTaskDraft = empty_draft, editingTaskId = None,
      storage = st, activeView = MainView, listenersBound = False, taskListHTML = [],
      emptyStateVisible = False, confirmTaskBtnDisabled = True\<rparr>"

section \<open>Persistence\<close>

definition task_json :: "task \<Rightarrow> json" where
  "task_json t =
     JObj [(asc ''id'', JNum (taskId t)), (asc ''task'', JStr (task t)),
           (asc ''project'', JStr (project t)), (asc ''organization'', JStr (organization t)),
           (asc ''dueDate'', JStr (dueDate t)), (asc ''completed'', JBool (completed t)),
           (asc ''createdAt'', JStr (createdAt t))]"

text \<open>The object \<open>data\<close> that \<open>saveData\<close> builds from the globals.\<close>

definition data_json :: "world \<Rightarrow> json" where
  "data_json w =
     JObj [(asc ''tasks'', JArr (map task_json (tasks w))),
           (asc ''projects'', JArr (map JStr (projects w))),
           (asc ''organizations'', JArr (map JStr (organizations w))),
           (asc ''currentSortMode'', JStr (currentSortMode w))]"

text \<open>
  \<open>saveData\<close> is an \<open>async\<close> function: \<open>Inl\<close> is the rejection of the promise it
  returns, \<open>Inr\<close> the storage once it has run. With \<open>creationStorage\<close> every error is
  caught and logged; with \<open>localStorage\<close> nothing is caught.
\<close>

definition saveData :: "host \<Rightarrow> world \<Rightarrow> error + store" where
  "saveData h w =
     (if creationStorage h then
        (case btoa (JSON_stringify (data_json w)) of
           Inl e \<Rightarrow> Inr (storage w)
         | Inr encoded \<Rightarrow>
             (case setItem (storage w) encoded of
                Inl e \<Rightarrow> Inr (storage w)
              | Inr st \<Rightarrow> Inr st))
      else setItem (storage w) (JSON_stringify (data_json w)))"

text \<open>
  The handlers call \<open>saveData()\<close> and do not wait for its promise: a rejection is lost
  to them, and they go on with the storage as the call left it.
\<close>

definition call_saveData :: "host \<Rightarrow> world \<Rightarrow> world" where
  "call_saveData h w =
     (case saveData h w of Inl e \<Rightarrow> w | Inr st \<Rightarrow> w\<lparr>storage := st\<rparr>)"

text \<open>
  The value of \<open>data\<close> in \<open>loadData\<close> before the final \<open>if\<close>, \<open>JNull\<close> for
  \<open>null\<close>; \<open>Inl\<close> is an error that \<open>loadData\<close> does not catch.
\<close>

definition read_data :: "host \<Rightarrow> store \<Rightarrow> error + json" where
  "read_data h st =
     (if creationStorage h then
        (case getItem st of
           Inl e \<Rightarrow> Inr JNull
         | Inr None \<Rightarrow> Inr JNull
         | Inr (Some stored) \<Rightarrow>
             if stored = [] then Inr JNull
             else (case atob stored of
                     Inl e \<Rightarrow> Inr JNull
                   | Inr decoded \<Rightarrow>
                       (case JSON_parse decoded of
                          Inl e \<Rightarrow> Inr JNull
                        | Inr v \<Rightarrow> Inr v)))
      else
        (case getItem st of
           Inl e \<Rightarrow> Inl e
         | Inr None \<Rightarrow> Inr JNull
         | Inr (Some stored) \<Rightarrow>
             if stored = [] then Inr JNull else JSON_parse stored))"

text \<open>
  Truthiness of a parsed value; \<open>None\<close> for a number whose value is not computed here.
\<close>

fun truthy :: "json \<Rightarrow> bool option" where
  "truthy JNull = Some False"
| "truthy (JBool b) = Some b"
| "truthy (JNum n) = Some (n \<noteq> 0)"
| "truthy (JReal t) = None"
| "truthy (JStr s) = Some (s \<noteq> [])"
| "truthy (JArr vs) = Some True"
| "truthy (JObj kvs) = Some True"

text \<open>
  Reading one of the properties \<open>tasks\<close>, \<open>projects\<close>, \<open>organizations\<close>,
  \<open>currentSortMode\<close> of a truthy value: the last member of that name of an object,
  \<open>undefined\<close> (\<open>None\<close>) on anything else.
\<close>

fun data_property :: "json \<Rightarrow> jsstring \<Rightarrow> json option" where
  "data_property (JObj kvs) k = map_of (rev kvs) k"
| "data_property v k = None"

text \<open>\<open>x || d\<close> for a property read \<open>x\<close>; the outer \<open>None\<close> is an uncomputed truthiness.\<close>

definition or_default :: "json option \<Rightarrow> json \<Rightarrow> json option" where
  "or_default x d =
     (case x of
        None \<Rightarrow> Some d
      | Some v \<Rightarrow> (case truthy v of None \<Rightarrow> None | Some b \<Rightarrow> Some (if b then v else d)))"

text \<open>
  The globals are typed here, so a loaded value has to be read back into the types:
  a task is an object with the seven members \<open>saveData\<close> writes, in its order.
\<close>

fun int_of_json :: "json \<Rightarrow> int option" where
  "int_of_json (JNum i) = Some i"
| "int_of_json v = None"

fun bool_of_json :: "json \<Rightarrow> bool option" where
  "bool_of_json (JBool b) = Some b"
| "bool_of_json v = None"

fun string_of_json :: "json \<Rightarrow> jsstring option" where
  "string_of_json (JStr s) = Some s"
| "string_of_json v = None"

definition task_keys :: "jsstring list" where
  "task_keys =
     [asc ''id'', asc ''task'', asc ''project'', asc ''organization'', asc ''dueDate'',
      asc ''completed'', asc ''createdAt'']"

definition task_of_json :: "json \<Rightarrow> task option" where
  "task_of_json v =
     (case v of
        JObj kvs \<Rightarrow>
          if map fst kvs = task_keys then
            (case (int_of_json (snd (kvs ! 0)), string_of_json (snd (kvs ! 1)),
                   string_of_json (snd (kvs ! 2)), string_of_json (snd (kvs ! 3)),
                   string_of_json (snd (kvs ! 4)), bool_of_json (snd (kvs ! 5)),
                   string_of_json (snd (kvs ! 6))) of
               (Some i, Some a, Some b, Some c, Some d, Some e, Some f) \<Rightarrow>
                 Some \<lparr>taskId = i, task = a, project = b, organization = c, dueDate = d,
                       completed = e, createdAt = f\<rparr>
             | _ \<Rightarrow> None)
          else None
      | _ \<Rightarrow> None)"

fun those_list :: "'a option list \<Rightarrow> 'a list option" where
  "those_list [] = Some []"
| "those_list (x # xs) =
     (case x of
        None \<Rightarrow> None
      | Some y \<Rightarrow> (case those_list xs of None \<Rightarrow> None | Some ys \<Rightarrow> Some (y # ys)))"

fun tasks_of_json :: "json \<Rightarrow> task list option" where
  "tasks_of_json (JArr vs) = those_list (map task_of_json vs)"
| "tasks_of_json v = None"

fun strings_of_json :: "json \<Rightarrow> jsstring list option" where
  "strings_of_json (JArr vs) = those_list (map string_of_json vs)"
| "strings_of_json v = None"

text \<open>
  How a run of a handler ends: it throws (the state it had reached is kept with the
  error), it returns, or it goes on with values that the typed globals cannot hold
  (\<open>Beyond\<close>), where this development says nothing.
\<close>

datatype 'a outcome = Threw error 'a | Done 'a | Beyond

definition assign_loaded :: "json \<Rightarrow> world \<Rightarrow> world outcome" where
  "assign_loaded v w =
     (case (or_default (data_property v (asc ''tasks'')) (JArr []),
            or_default (data_property v (asc ''projects'')) (JArr []),
            or_default (data_property v (asc ''organizations'')) (JArr []),
            or_default (data_property v (asc ''currentSortMode'')) (JStr (asc ''date''))) of
        (Some a, Some b, Some c, Some d) \<Rightarrow>
          (case (tasks_of_json a, strings_of_json b, strings_of_json c, string_of_json d) of
             (Some ts, Some ps, Some os, Some m) \<Rightarrow>
               Done (w\<lparr>tasks := ts, projects := ps, organizations := os, currentSortMode := m\<rparr>)
           | _ \<Rightarrow> Beyond)
      | _ \<Rightarrow> Beyond)"

definition loadData :: "host \<Rightarrow> world \<Rightarrow> world outcome" where
  "loadData h w =
     (case read_data h (storage w) of
        Inl e \<Rightarrow> Threw e w
      | Inr v \<Rightarrow>
          (case truthy v of
             None \<Rightarrow> Beyond
           | Some False \<Rightarrow> Done w
           | Some True \<Rightarrow> assign_loaded v w))"

section \<open>Rendering\<close>

text \<open>
  One run of a handler reads the clock several times, a few instructions apart; every
  read of one run has the same value \<open>now\<close> here.
\<close>

definition isOverdue :: "host \<Rightarrow> int \<Rightarrow> task \<Rightarrow> bool" where
  "isOverdue h now t =
     (dueDate t \<noteq> [] \<and>
      (case dateParse h (dueDate t) of None \<Rightarrow> False | Some d \<Rightarrow> d < now) \<and>
      \<not> completed t)"

definition formatDate :: "host \<Rightarrow> int \<Rightarrow> jsstring \<Rightarrow> jsstring" where
  "formatDate h now dateString =
     (if dateString = [] then []
      else
        (let date = map_option (setHoursZero h) (dateParse h dateString);
             today = setHoursZero h now;
             tomorrow = setHoursZero h (nextDay h now)
         in if date = Some today then asc ''Today''
            else if date = Some tomorrow then asc ''Tomorrow''
            else (case date of
                    None \<Rightarrow> asc ''Invalid Date''
                  | Some d \<Rightarrow> toLocaleDateString h (getFullYear h d \<noteq> getFullYear h today) d)))"

text \<open>A line break of the template literal and the indentation that follows it.\<close>

definition nl :: "nat \<Rightarrow> jsstring" where
  "nl k = 10 # replicate k 32"

text \<open>The three pictographs of the template, as the code units of the source file.\<close>

definition icon_project :: jsstring where
  "icon_project = [63743, 252, 236, 197]"

definition icon_org :: jsstring where
  "icon_org = [63743, 252, 232, 162]"

definition icon_due :: jsstring where
  "icon_due = [63743, 252, 236, 214]"

text \<open>The template literal that the callback of \<open>sortedTasks.map\<close> returns for one task.\<close>

definition renderTask :: "host \<Rightarrow> int \<Rightarrow> task \<Rightarrow> jsstring" where
  \<open>renderTask h now t =
     nl 12 @ asc ''<div class="task-item '' @ (if completed t then asc ''completed'' else []) @
       asc ''" '' @
     nl 17 @ asc ''onclick="showEditView('' @ numberToString (taskId t) @ asc '')"'' @
     nl 17 @ asc ''data-task-id="'' @ numberToString (taskId t) @ asc ''">'' @
     nl 16 @ asc ''<div class="task-title">'' @ escapeHtml (task t) @ asc ''</div>'' @
     nl 16 @ asc ''<div class="task-meta">'' @
     nl 20 @ (if project t \<noteq> [] then
                asc ''<span class="task-tag project">'' @ icon_project @ asc '' '' @
                escapeHtml (project t) @ asc ''</span>''
              else []) @
     nl 20 @ (if organization t \<noteq> [] then
                asc ''<span class="task-tag org">'' @ icon_org @ asc '' '' @
                escapeHtml (organization t) @ asc ''</span>''
              else []) @
     nl 20 @ (if dueDate t \<noteq> [] then
                asc ''<span class="task-tag due '' @
                (if isOverdue h now t then asc ''overdue'' else []) @ asc ''">'' @
                icon_due @ asc '' '' @ formatDate h now (dueDate t) @ asc ''</span>''
              else []) @
     nl 16 @ asc ''</div>'' @
     nl 12 @ asc ''</div>'' @
     nl 8\<close>

definition renderTasks :: "host \<Rightarrow> int \<Rightarrow> world \<Rightarrow> world" where
  "renderTasks h now w =
     (if tasks w = [] then w\<lparr>taskListHTML := [], emptyStateVisible := True\<rparr>
      else w\<lparr>emptyStateVisible := False,
              taskListHTML :=
                concat (map (renderTask h now)
                  (sortTasks (localeCompare h) (currentSortMode w) (tasks w)))\<rparr>)"

section \<open>Start\<close>

definition setupEventListeners :: "world \<Rightarrow> world" where
  "setupEventListeners w = w\<lparr>listenersBound := True\<rparr>"

text \<open>
  The listener of \<open>DOMContentLoaded\<close>: it waits for \<open>loadData\<close>, so an error that
  \<open>loadData\<close> throws ends it before the handlers are bound and the list is rendered.
\<close>

definition startup :: "host \<Rightarrow> int \<Rightarrow> world \<Rightarrow> world outcome" where
  "startup h now w =
     (case loadData h w of
        Threw e w' \<Rightarrow> Threw e w'
      | Beyond \<Rightarrow> Beyond
      | Done w' \<Rightarrow> Done (renderTasks h now (setupEventListeners w')))"

section \<open>Views, voice capture and the draft\<close>

definition showView :: "view \<Rightarrow> world \<Rightarrow> world" where
  "showView v w = w\<lparr>activeView := v\<rparr>"

definition resetTaskDraft :: "world \<Rightarrow> world" where
  "resetTaskDraft w = w\<lparr>currentTaskDraft := empty_draft, confirmTaskBtnDisabled := True\<rparr>"

definition showAddView :: "world \<Rightarrow> world" where
  "showAddView w = showView AddView (resetTaskDraft w)"

definition showEditView :: "int \<Rightarrow> world \<Rightarrow> world" where
  "showEditView i w =
     (let w' = w\<lparr>editingTaskId := Some i\<rparr>
      in case find (\<lambda>t. taskId t = i) (tasks w') of
           None \<Rightarrow> w'
         | Some t \<Rightarrow> showView EditView w')"

definition cancelAdd :: "world \<Rightarrow> world" where
  "cancelAdd w = showView MainView (resetTaskDraft w)"

definition cancelEdit :: "world \<Rightarrow> world" where
  "cancelEdit w = showView MainView (w\<lparr>editingTaskId := None\<rparr>)"

definition startVoiceInput :: "world \<Rightarrow> world" where
  "startVoiceInput w = w\<lparr>isListening := True\<rparr>"

definition stopVoiceInput :: "world \<Rightarrow> world" where
  "stopVoiceInput w = w\<lparr>isListening := False\<rparr>"

definition handleSideClick :: "world \<Rightarrow> world" where
  "handleSideClick w =
     (if activeView w = AddView then
        (if \<not> isListening w then startVoiceInput w else stopVoiceInput w)
      else w)"

text \<open>
  \<open>processVoiceResponse\<close>: the fields of the captured data that are not empty
  overwrite the draft. The data is a draft whose absent fields are empty.
\<close>

definition processVoiceResponse :: "draft \<Rightarrow> world \<Rightarrow> world" where
  "processVoiceResponse data w =
     (let d = currentTaskDraft w;
          d1 = (if draft_task data \<noteq> [] then d\<lparr>draft_task := draft_task data\<rparr> else d);
          d2 = (if draft_project data \<noteq> [] then d1\<lparr>draft_project := draft_project data\<rparr> else d1);
          d3 = (if draft_organization data \<noteq> []
                then d2\<lparr>draft_organization := draft_organization data\<rparr> else d2);
          d4 = (if draft_dueDate data \<noteq> [] then d3\<lparr>draft_dueDate := draft_dueDate data\<rparr> else d3)
      in w\<lparr>isListening := False, currentTaskDraft := d4,
            confirmTaskBtnDisabled := (draft_task d4 = [])\<rparr>)"

section \<open>Task management\<close>

definition confirmTask :: "host \<Rightarrow> int \<Rightarrow> world \<Rightarrow> world" where
  "confirmTask h now w =
     (let d = currentTaskDraft w in
      if draft_task d = [] then w
      else
        (let w1 = (if draft_project d \<noteq> [] \<and> draft_project d \<notin> set (projects w)
                   then w\<lparr>projects := projects w @ [draft_project d]\<rparr> else w);
             w2 = (if draft_organization d \<noteq> [] \<and> draft_organization d \<notin> set (organizations w1)
                   then w1\<lparr>organizations := organizations w1 @ [draft_organization d]\<rparr> else w1);
             newTask = \<lparr>taskId = now, task = draft_task d, project = draft_project d,
                        organization = draft_organization d, dueDate = draft_dueDate d,
                        completed = False, createdAt = toISOString h now\<rparr>;
             w3 = w2\<lparr>tasks := tasks w2 @ [newTask]\<rparr>
         in showView MainView (renderTasks h now (call_saveData h w3))))"

text \<open>
  What \<open>saveEdit\<close> reads from the document: the values of the four inputs, and the
  answers of the two \<open>prompt\<close> dialogs should they be shown (\<open>None\<close> when dismissed).
\<close>

record edit_inputs =
  editTaskInput :: jsstring
  editProjectSelect :: jsstring
  editOrgSelect :: jsstring
  editDueInput :: jsstring
  promptProject :: "jsstring option"
  promptOrg :: "jsstring option"

text \<open>\<open>find\<close> returns the first task with the id, and the assignments change that one.\<close>

fun update_first :: "('a \<Rightarrow> bool) \<Rightarrow> ('a \<Rightarrow> 'a) \<Rightarrow> 'a list \<Rightarrow> 'a list" where
  "update_first P f [] = []"
| "update_first P f (x # xs) = (if P x then f x # xs else x # update_first P f xs)"

text \<open>\<open>x || ''\<close> for the answer of a prompt or the value of a select.\<close>

definition or_empty :: "jsstring option \<Rightarrow> jsstring" where
  "or_empty x = (case x of None \<Rightarrow> [] | Some v \<Rightarrow> v)"

definition saveEdit :: "host \<Rightarrow> int \<Rightarrow> edit_inputs \<Rightarrow> world \<Rightarrow> world" where
  "saveEdit h now inp w =
     (case editingTaskId w of
        None \<Rightarrow> w
      | Some i \<Rightarrow>
          if i = 0 then w
          else
            (case find (\<lambda>t. taskId t = i) (tasks w) of
               None \<Rightarrow> w
             | Some t \<Rightarrow>
                 (let newTask = trim (editTaskInput inp) in
                  if newTask = [] then w
                  else
                    (let newProject = (if editProjectSelect inp = asc ''__new__''
                                       then promptProject inp else Some (editProjectSelect inp));
                         w1 = (if editProjectSelect inp = asc ''__new__'' \<and> or_empty newProject \<noteq> [] \<and>
                                  or_empty newProject \<notin> set (projects w)
                               then w\<lparr>projects := projects w @ [or_empty newProject]\<rparr> else w);
                         newOrg = (if editOrgSelect inp = asc ''__new__''
                                   then promptOrg inp else Some (editOrgSelect inp));
                         w2 = (if editOrgSelect inp = asc ''__new__'' \<and> or_empty newOrg \<noteq> [] \<and>
                                  or_empty newOrg \<notin> set (organizations w1)
                               then w1\<lparr>organizations := organizations w1 @ [or_empty newOrg]\<rparr>
                               else w1);
                         w3 = w2\<lparr>tasks :=
                                  update_first (\<lambda>t. taskId t = i)
                                    (\<lambda>t. t\<lparr>task := newTask, project := or_empty newProject,
                                            organization := or_empty newOrg,
                                            dueDate := editDueInput inp\<rparr>)
                                    (tasks w2)\<rparr>
                     in showView MainView (renderTasks h now (call_saveData h w3))))))"

text \<open>\<open>deleteTask\<close>, with the answer of the \<open>confirm\<close> dialog.\<close>

definition deleteTask :: "host \<Rightarrow> int \<Rightarrow> bool \<Rightarrow> world \<Rightarrow> world" where
  "deleteTask h now confirmed w =
     (case editingTaskId w of
        None \<Rightarrow> w
      | Some i \<Rightarrow>
          if i = 0 then w
          else if confirmed then
            showView MainView
              (renderTasks h now
                (call_saveData h (w\<lparr>tasks := filter (\<lambda>t. taskId t \<noteq> i) (tasks w)\<rparr>)))
          else w)"

definition toggleTaskComplete :: "host \<Rightarrow> int \<Rightarrow> int \<Rightarrow> world \<Rightarrow> world" where
  "toggleTaskComplete h now i w =
     (case find (\<lambda>t. taskId t = i) (tasks w) of
        None \<Rightarrow> w
      | Some t \<Rightarrow>
          renderTasks h now
            (call_saveData h
              (w\<lparr>tasks := update_first (\<lambda>t. taskId t = i)
                             (\<lambda>t. t\<lparr>completed := \<not> completed t\<rparr>) (tasks w)\<rparr>)))"

definition toggleSort :: "host \<Rightarrow> int \<Rightarrow> world \<Rightarrow> world" where
  "toggleSort h now w =
     renderTasks h now
       (call_saveData h
         (w\<lparr>currentSortMode :=
               (if currentSortMode w = asc ''date'' then asc ''project'' else asc ''date'')\<rparr>))"

text \<open>
  The events of the task application after start, each with what the handler reads
  from the user, and a run of them; every event comes with the clock reading of its
  handler.
\<close>

datatype event =
    ShowAddView
  | CancelAdd
  | SideClick
  | VoiceResponse draft
  | ConfirmTask
  | ShowEditView int
  | CancelEdit
  | SaveEdit edit_inputs
  | DeleteTask bool
  | ToggleTaskComplete int
  | ToggleSort

fun handle :: "host \<Rightarrow> int \<Rightarrow> event \<Rightarrow> world \<Rightarrow> world" where
  "handle h now ShowAddView w = showAddView w"
| "handle h now CancelAdd w = cancelAdd w"
| "handle h now SideClick w = handleSideClick w"
| "handle h now (VoiceResponse d) w = processVoiceResponse d w"
| "handle h now ConfirmTask w = confirmTask h now w"
| "handle h now (ShowEditView i) w = showEditView i w"
| "handle h now CancelEdit w = cancelEdit w"
| "handle h now (SaveEdit inp) w = saveEdit h now inp w"
| "handle h now (DeleteTask c) w = deleteTask h now c w"
| "handle h now (ToggleTaskComplete i) w = toggleTaskComplete h now i w"
| "handle h now ToggleSort w = toggleSort h now w"

fun run :: "host \<Rightarrow> (int \<times> event) list \<Rightarrow> world \<Rightarrow> world" where
  "run h [] w = w"
| "run h ((now, e) # es) w = run h es (handle h now e w)"

section \<open>A reference host\<close>

text \<open>
  A host to run the task application on at concrete inputs: a browser in the UTC time
  zone that collates by code units, reads dates written \<open>YYYY-MM-DD\<close> (as midnight
  UTC, which the language fixes for this form) and no others, and formats dates the
  \<open>en-US\<close> way.
\<close>

definition days_from_civil :: "int \<Rightarrow> int \<Rightarrow> int \<Rightarrow> int" where
  "days_from_civil y m d =
     (let y' = (if m \<le> 2 then y - 1 else y);
          era = y' div 400;
          yoe = y' - era * 400;
          doy = (153 * (if m > 2 then m - 3 else m + 9) + 2) div 5 + d - 1;
          doe = yoe * 365 + yoe div 4 - yoe div 100 + doy
      in era * 146097 + doe - 719468)"

definition civil_from_days :: "int \<Rightarrow> int \<times> int \<times> int" where
  "civil_from_days z0 =
     (let z = z0 + 719468;
          era = z div 146097;
          doe = z - era * 146097;
          yoe = (doe - doe div 1460 + doe div 36524 - doe div 146096) div 365;
          doy = doe - (365 * yoe + yoe div 4 - yoe div 100);
          mp = (5 * doy + 2) div 153;
          d = doy - (153 * mp + 2) div 5 + 1;
          m = (if mp < 10 then mp + 3 else mp - 9);
          y = yoe + era * 400
      in (if m \<le> 2 then y + 1 else y, m, d))"

definition days_in_month :: "int \<Rightarrow> int \<Rightarrow> int" where
  "days_in_month y m =
     (if m = 2 then (if y mod 4 = 0 \<and> (y mod 100 \<noteq> 0 \<or> y mod 400 = 0) then 29 else 28)
      else if m = 4 \<or> m = 6 \<or> m = 9 \<or> m = 11 then 30
      else 31)"

definition ms_per_day :: int where
  "ms_per_day = 86400000"

definition utc_dateParse :: "jsstring \<Rightarrow> int option" where
  "utc_dateParse s =
     (if length s = 10 \<and> s ! 4 = 45 \<and> s ! 7 = 45 \<and>
         list_all is_digit (take 4 s @ take 2 (drop 5 s) @ drop 8 s) then
        (let y = int (digits_value (take 4 s));
             m = int (digits_value (take 2 (drop 5 s)));
             d = int (digits_value (drop 8 s))
         in if 1 \<le> m \<and> m \<le> 12 \<and> 1 \<le> d \<and> d \<le> days_in_month y m
            then Some (days_from_civil y m d * ms_per_day) else None)
      else None)"

definition pad :: "nat \<Rightarrow> int \<Rightarrow> jsstring" where
  "pad k n = replicate (k - length (digits (nat n))) 48 @ digits (nat n)"

definition month_names :: "string list" where
  "month_names =
     [''Jan'', ''Feb'', ''Mar'', ''Apr'', ''May'', ''Jun'', ''Jul'', ''Aug'', ''Sep'', ''Oct'',
      ''Nov'', ''Dec'']"

definition utc_toLocaleDateString :: "bool \<Rightarrow> int \<Rightarrow> jsstring" where
  "utc_toLocaleDateString with_year t =
     (case civil_from_days (t div ms_per_day) of
        (y, m, d) \<Rightarrow>
          asc (month_names ! nat (m - 1)) @ asc '' '' @ numberToString d @
          (if with_year then asc '', '' @ numberToString y else []))"

definition utc_toISOString :: "int \<Rightarrow> jsstring" where
  "utc_toISOString t =
     (case civil_from_days (t div ms_per_day) of
        (y, m, d) \<Rightarrow>
          (let r = t mod ms_per_day in
           pad 4 y @ asc ''-'' @ pad 2 m @ asc ''-'' @ pad 2 d @ asc ''T'' @
           pad 2 (r div 3600000) @ asc '':'' @ pad 2 (r div 60000 mod 60) @ asc '':'' @
           pad 2 (r div 1000 mod 60) @ asc ''.'' @ pad 3 (r mod 1000) @ asc ''Z''))"

definition utc_host :: "bool \<Rightarrow> host" where
  "utc_host with_creationStorage =
     \<lparr>localeCompare = ordinal_compare,
      dateParse = utc_dateParse,
      setHoursZero = (\<lambda>t. t - t mod ms_per_day),
      nextDay = (\<lambda>t. t + ms_per_day),
      getFullYear = (\<lambda>t. fst (civil_from_days (t div ms_per_day))),
      toLocaleDateString = utc_toLocaleDateString,
      toISOString = utc_toISOString,
      creationStorage = with_creationStorage\<rparr>"

section \<open>The QR application: the share link\<close>

text \<open>The five fields of the form; \<open>getFormData\<close> returns an object with the same five.\<close>

record formData =
  title :: jsstring
  url :: jsstring
  description :: jsstring
  iconUrl :: jsstring
  themeColor :: jsstring

text \<open>
  The part of the page the share link is about: the values of the five form elements,
  the value of the \<open>shareUrl\<close> input, the last notification shown (message and type)
  and whether \<open>generateQRCode\<close> has been scheduled. An element keeps the string it is
  given.
\<close>

record page =
  form :: formData
  shareUrl :: jsstring
  notification :: "(jsstring \<times> jsstring) option"
  generateScheduled :: bool

definition getFormData :: "page \<Rightarrow> formData" where
  "getFormData p =
     \<lparr>title = trim (title (form p)), url = trim (url (form p)),
      description = trim (description (form p)), iconUrl = trim (iconUrl (form p)),
      themeColor = themeColor (form p)\<rparr>"

definition formData_json :: "formData \<Rightarrow> json" where
  "formData_json d =
     JObj [(asc ''title'', JStr (title d)), (asc ''url'', JStr (url d)),
           (asc ''description'', JStr (description d)), (asc ''iconUrl'', JStr (iconUrl d)),
           (asc ''themeColor'', JStr (themeColor d))]"

text \<open>\<open>s.replace(/c/g, r)\<close> for a single character \<open>c\<close>.\<close>

definition replace_all :: "nat \<Rightarrow> jsstring \<Rightarrow> jsstring \<Rightarrow> jsstring" where
  "replace_all c r s = concat (map (\<lambda>x. if x = c then r else [x]) s)"

text \<open>The expression of \<open>updateShareURL\<close> that computes \<open>encodedData\<close>.\<close>

definition encodeShareData :: "formData \<Rightarrow> error + jsstring" where
  "encodeShareData d =
     (case btoa (JSON_stringify (formData_json d)) of
        Inl e \<Rightarrow> Inl e
      | Inr b \<Rightarrow> Inr (replace_all 61 [] (replace_all 47 [95] (replace_all 43 [45] b))))"

definition hasData :: "formData \<Rightarrow> bool" where
  "hasData d =
     list_ex (\<lambda>v. v \<noteq> [] \<and> v \<noteq> asc ''#FE5000'')
       [title d, url d, description d, iconUrl d, themeColor d]"

text \<open>\<open>base\<close> is \<open>window.location.origin\<close> followed by \<open>window.location.pathname\<close>.\<close>

definition updateShareURL :: "jsstring \<Rightarrow> page \<Rightarrow> page" where
  "updateShareURL base p =
     (let d = getFormData p in
      if hasData d then
        (case encodeShareData d of
           Inl e \<Rightarrow> p\<lparr>shareUrl := []\<rparr>
         | Inr encodedData \<Rightarrow> p\<lparr>shareUrl := base @ asc ''?jsondata='' @ encodedData\<rparr>)
      else p\<lparr>shareUrl := []\<rparr>)"

text \<open>The two statements of \<open>parseURLParameters\<close> that compute \<open>parsedData\<close>.\<close>

definition decodeShareData :: "jsstring \<Rightarrow> error + json" where
  "decodeShareData jsonData =
     (case atob (replace_all 95 [47] (replace_all 45 [43] jsonData)) of
        Inl e \<Rightarrow> Inl e
      | Inr decodedData \<Rightarrow> JSON_parse decodedData)"

text \<open>
  The string an element takes when a parsed value is assigned to its \<open>value\<close>;
  \<open>None\<close> for an array, an object or a number whose value is not computed here.
\<close>

fun value_string :: "json \<Rightarrow> jsstring option" where
  "value_string (JStr s) = Some s"
| "value_string (JNum n) = Some (numberToString n)"
| "value_string (JBool b) = Some (if b then asc ''true'' else asc ''false'')"
| "value_string JNull = Some []"
| "value_string v = None"

text \<open>
  One round of the loop of \<open>populateForm\<close>: the element takes \<open>data[field]\<close> unless
  that is \<open>undefined\<close>.
\<close>

definition populate_field ::
  "json \<Rightarrow> jsstring \<Rightarrow> (formData \<Rightarrow> jsstring \<Rightarrow> formData) \<Rightarrow> formData option \<Rightarrow> formData option" where
  "populate_field data field assign f =
     (case f of
        None \<Rightarrow> None
      | Some g \<Rightarrow>
          (case data_property data field of
             None \<Rightarrow> Some g
           | Some v \<Rightarrow> map_option (assign g) (value_string v)))"

text \<open>
  \<open>populateForm\<close>: reading a property of \<open>null\<close> throws; a value that is not an object
  has none of the five properties.
\<close>

definition populateForm :: "json \<Rightarrow> page \<Rightarrow> page outcome" where
  "populateForm data p =
     (if data = JNull then Threw TypeError p
      else
        (case populate_field data (asc ''themeColor'') (\<lambda>g v. g\<lparr>themeColor := v\<rparr>)
               (populate_field data (asc ''iconUrl'') (\<lambda>g v. g\<lparr>iconUrl := v\<rparr>)
                 (populate_field data (asc ''description'') (\<lambda>g v. g\<lparr>description := v\<rparr>)
                   (populate_field data (asc ''url'') (\<lambda>g v. g\<lparr>url := v\<rparr>)
                     (populate_field data (asc ''title'') (\<lambda>g v. g\<lparr>title := v\<rparr>)
                       (Some (form p)))))) of
           None \<Rightarrow> Beyond
         | Some g \<Rightarrow> Done (p\<lparr>form := g\<rparr>)))"

text \<open>
  \<open>parseURLParameters\<close>, given what \<open>urlParams.get('jsondata')\<close> returned (\<open>None\<close>
  for \<open>null\<close>). Every error is caught and shown as a notification.
\<close>

definition parseURLParameters :: "jsstring option \<Rightarrow> page \<Rightarrow> page outcome" where
  "parseURLParameters jsonData p =
     (case jsonData of
        None \<Rightarrow> Done p
      | Some j \<Rightarrow>
          if j = [] then Done p
          else
            (case decodeShareData j of
               Inl e \<Rightarrow> Done (p\<lparr>notification := Some (asc ''Invalid URL parameters'', asc ''error'')\<rparr>)
             | Inr parsedData \<Rightarrow>
                 (case populateForm parsedData p of
                    Threw e p' \<Rightarrow>
                      Done (p'\<lparr>notification := Some (asc ''Invalid URL parameters'', asc ''error'')\<rparr>)
                  | Beyond \<Rightarrow> Beyond
                  | Done p' \<Rightarrow> Done (p'\<lparr>generateScheduled := True\<rparr>))))"

section \<open>The order the specification asks of sortTasks\<close>







section \<open>Auxiliary notions of the properties\<close>

text \<open>
  The world in which \<open>confirmTask\<close> calls \<open>saveData\<close> when the draft has a task text:
  the registries grown by the new names, the new task appended.
\<close>

definition with_new_task :: "host \<Rightarrow> int \<Rightarrow> world \<Rightarrow> world" where
  "with_new_task h now w =
     (let d = currentTaskDraft w in
      w\<lparr>projects := (if draft_project d \<noteq> [] \<and> draft_project d \<notin> set (projects w)
                       then projects w @ [draft_project d] else projects w),
         organizations := (if draft_organization d \<noteq> [] \<and> draft_organization d \<notin> set (organizations w)
                            then organizations w @ [draft_organization d] else organizations w),
         tasks := tasks w @
           [\<lparr>taskId = now, task = draft_task d, project = draft_project d,
              organization = draft_organization d, dueDate = draft_dueDate d,
              completed = False, createdAt = toISOString h now\<rparr>]\<rparr>)"

text \<open>
  A run has a fresh clock when every \<open>ConfirmTask\<close> in it happens at a clock reading
  that is not the id of a task in the list at that moment.
\<close>

fun fresh_clock :: "host \<Rightarrow> (int \<times> event) list \<Rightarrow> world \<Rightarrow> bool" where
  "fresh_clock h [] w = True"
| "fresh_clock h ((now, e) # es) w =
     ((case e of ConfirmTask \<Rightarrow> now \<notin> set (map taskId (tasks w)) | _ \<Rightarrow> True) \<and>
      fresh_clock h es (handle h now e w))"

text \<open>
  Overdue in the specification's words: the due date is strictly before the current
  date, as date strings \<open>YYYY-MM-DD\<close>, and the task is not completed.
\<close>

definition spec_overdue :: "jsstring \<Rightarrow> task \<Rightarrow> bool" where
  "spec_overdue today t = (ordinal_compare (dueDate t) today < 0 \<and> \<not> completed t)"





section \<open>Concrete inputs\<close>

text \<open>A task with the given id, project, due date and creation time.\<close>

definition example_task :: "int \<Rightarrow> string \<Rightarrow> string \<Rightarrow> string \<Rightarrow> task" where
  "example_task i p d c =
     \<lparr>taskId = i, task = asc ''t'', project = asc p, organization = [], dueDate = asc d,
      completed = False, createdAt = asc c\<rparr>"



definition empty_store :: store where
  "empty_store = \<lparr>item = None, failing = False\<rparr>"

definition example_draft :: draft where
  "example_draft =
     \<lparr>draft_task = asc ''a'', draft_project = [], draft_organization = [], draft_dueDate = []\<rparr>"

text \<open>
  The add flow as the user goes through it: open the add view, capture a task by
  voice, confirm; each step at its own clock reading.
\<close>

definition add_flow :: "int \<Rightarrow> int \<Rightarrow> int \<Rightarrow> (int \<times> event) list" where
  "add_flow t1 t2 t3 = [(t1, ShowAddView), (t2, VoiceResponse example_draft), (t3, ConfirmTask)]"

text \<open>A world whose draft holds a single space as the task text.\<close>

definition blank_draft_world :: world where
  "blank_draft_world =
     (initial_world empty_store)\<lparr>currentTaskDraft := empty_draft\<lparr>draft_task := asc '' ''\<rparr>\<rparr>"

text \<open>A world with one task, open in the edit view.\<close>

definition editing_world :: world where
  "editing_world =
     (initial_world empty_store)
       \<lparr>tasks := [example_task 7 ''A'' [] ''1''], editingTaskId := Some 7, activeView := EditView\<rparr>"

definition blank_edit :: edit_inputs where
  "blank_edit =
     \<lparr>editTaskInput = asc '' '', editProjectSelect = [], editOrgSelect = [], editDueInput = [],
      promptProject = None, promptOrg = None\<rparr>"

section \<open>Auxiliary notions of the round trips\<close>

text \<open>A text after which a number can end: it does not go on with a digit, a point or an exponent.\<close>

definition number_end :: "jsstring \<Rightarrow> bool" where
  "number_end r =
     (case r of [] \<Rightarrow> True | c # _ \<Rightarrow> \<not> is_digit c \<and> c \<noteq> 46 \<and> c \<noteq> 101 \<and> c \<noteq> 69)"

text \<open>The values without a \<open>JReal\<close>: those that \<open>JSON.stringify\<close> prints from typed data.\<close>

fun plain :: "json \<Rightarrow> bool"
  and plain_elements :: "json list \<Rightarrow> bool"
  and plain_members :: "(jsstring \<times> json) list \<Rightarrow> bool"
where
  "plain JNull = True"
| "plain (JBool b) = True"
| "plain (JNum n) = True"
| "plain (JReal t) = False"
| "plain (JStr s) = True"
| "plain (JArr vs) = plain_elements vs"
| "plain (JObj kvs) = plain_members kvs"
| "plain_elements [] = True"
| "plain_elements (v # vs) = (plain v \<and> plain_elements vs)"
| "plain_members [] = True"
| "plain_members ((k, v) # kvs) = (plain v \<and> plain_members kvs)"

text \<open>The six-bit groups of a byte string, the last group padded with zero bits.\<close>

fun b64_sextets :: "nat list \<Rightarrow> nat list" where
  "b64_sextets [] = []"
| "b64_sextets [a] = [a div 4, a mod 4 * 16]"
| "b64_sextets [a, b] = [a div 4, a mod 4 * 16 + b div 16, b mod 16 * 4]"
| "b64_sextets (a # b # c # bs) =
     (a div 4) # (a mod 4 * 16 + b div 16) # (b mod 16 * 4 + c div 64) # (c mod 64) # b64_sextets bs"

text \<open>The URL-safe alphabet: \<open>-\<close> for \<open>+\<close> and \<open>_\<close> for \<open>/\<close>.\<close>

definition b64url_char :: "nat \<Rightarrow> nat" where
  "b64url_char i = (if i = 62 then 45 else if i = 63 then 95 else b64_char i)"

text \<open>The characters a URL leaves as they are: letters, digits, \<open>-\<close> and \<open>_\<close>.\<close>

definition url_unreserved :: "nat \<Rightarrow> bool" where
  "url_unreserved c =
     ((65 \<le> c \<and> c \<le> 90) \<or> (97 \<le> c \<and> c \<le> 122) \<or> (48 \<le> c \<and> c \<le> 57) \<or> c = 45 \<or> c = 95)"


text \<open>A storage whose item is not JSON, and one whose item decodes to that text.\<close>

definition unparsable_store :: store where
  "unparsable_store = \<lparr>item = Some (asc ''{''), failing = False\<rparr>"

definition unparsable_encoded_store :: store where
  "unparsable_encoded_store = \<lparr>item = Some (asc ''ew==''), failing = False\<rparr>"

text \<open>A storage that refuses its calls.\<close>

definition refusing_store :: store where
  "refusing_store = \<lparr>item = None, failing = True\<rparr>"

text \<open>A state with one task whose text is the character U+2615, over an empty storage.\<close>

definition unicode_world :: world where
  "unicode_world =
     (initial_world empty_store)\<lparr>tasks := [(example_task 1 [] [] ''c'')\<lparr>task := [9749]\<rparr>]\<rparr>"

text \<open>A world whose draft holds the ideographic space U+3000 as the task text.\<close>

definition ideographic_draft_world :: world where
  "ideographic_draft_world =
     (initial_world empty_store)\<lparr>currentTaskDraft := empty_draft\<lparr>draft_task := [12288]\<rparr>\<rparr>"

text \<open>What a fresh session has loaded from a storage in which the state \<open>w\<close> was saved.\<close>

definition reloaded :: "store \<Rightarrow> world \<Rightarrow> world" where
  "reloaded st w =
     (initial_world st)
       \<lparr>tasks := tasks w, projects := projects w, organizations := organizations w,
         currentSortMode := (if currentSortMode w = [] then asc ''date'' else currentSortMode w)\<rparr>"

text \<open>A page with an empty form, and form data whose title is the character U+65E5.\<close>

definition empty_page :: page where
  "empty_page =
     \<lparr>form = \<lparr>title = [], url = [], description = [], iconUrl = [], themeColor = []\<rparr>,
      shareUrl = [], notification = None, generateScheduled = False\<rparr>"

definition unicode_form :: formData where
  "unicode_form =
     \<lparr>title = [26085], url = [], description = [], iconUrl = [], themeColor = asc ''#FE5000''\<rparr>"

definition latin_form :: formData where
  "latin_form =
     \<lparr>title = asc ''Caf'' @ [233], url = asc ''https://x.y/?a=1&b=2'', description = [],
      iconUrl = [], themeColor = asc ''#FE5000''\<rparr>"

text \<open>
  The task list that a fresh session holds once \<open>loadData\<close> has run on a storage;
  \<open>None\<close> when \<open>loadData\<close> does not return there.
\<close>

definition tasks_after_reload :: "host \<Rightarrow> store \<Rightarrow> task list option" where
  "tasks_after_reload h st =
     (case loadData h (initial_world st) of Done w \<Rightarrow> Some (tasks w) | _ \<Rightarrow> None)"

section \<open>Sorting: the comparators and the sort\<close>

lemma ordinal_compare_refl: "ordinal_compare a a = 0"
  by (induction a) auto

lemma ordinal_compare_zero: "ordinal_compare a b = 0 \<Longrightarrow> a = b"
proof (induction a b rule: ordinal_compare.induct)
  case (4 x xs y ys)
  then show ?case by (cases "x < y"; cases "y < x") simp_all
qed simp_all

lemma ordinal_compare_swap: "(ordinal_compare a b < 0) = (0 < ordinal_compare b a)"
proof (induction a b rule: ordinal_compare.induct)
  case (4 x xs y ys)
  then show ?case by (cases "x < y"; cases "y < x") simp_all
qed simp_all

lemma ordinal_compare_Cons_le:
  "(ordinal_compare (x # xs) (y # ys) \<le> 0) = (x < y \<or> (x = y \<and> ordinal_compare xs ys \<le> 0))"
  by (cases "x < y"; cases "y < x") simp_all

lemma ordinal_compare_trans:
  "ordinal_compare a b \<le> 0 \<Longrightarrow> ordinal_compare b c \<le> 0 \<Longrightarrow> ordinal_compare a c \<le> 0"
proof (induction a arbitrary: b c)
  case Nil
  then show ?case by (cases c) simp_all
next
  case (Cons x xs)
  show ?case
  proof (cases b)
    case Nil
    with Cons.prems show ?thesis by simp
  next
    case b: (Cons y ys)
    show ?thesis
    proof (cases c)
      case Nil
      with Cons.prems b show ?thesis by simp
    next
      case c: (Cons z zs)
      from Cons.prems(1) b have 1: "x < y \<or> (x = y \<and> ordinal_compare xs ys \<le> 0)"
        by (simp only: ordinal_compare_Cons_le)
      from Cons.prems(2) b c have 2: "y < z \<or> (y = z \<and> ordinal_compare ys zs \<le> 0)"
        by (simp only: ordinal_compare_Cons_le)
      have "x < z \<or> (x = z \<and> ordinal_compare xs zs \<le> 0)"
      proof (cases "x < z")
        case True
        then show ?thesis by simp
      next
        case False
        with 1 2 have "x = y" "y = z" "ordinal_compare xs ys \<le> 0" "ordinal_compare ys zs \<le> 0"
          by auto
        then show ?thesis using Cons.IH[of ys zs] by simp
      qed
      then show ?thesis unfolding c by (simp only: ordinal_compare_Cons_le)
    qed
  qed
qed

lemma collation_ordinal_compare: "collation ordinal_compare"
  unfolding collation_def
proof (intro conjI allI impI)
  fix a b :: jsstring
  show "(ordinal_compare a b < 0) = (0 < ordinal_compare b a)"
    by (rule ordinal_compare_swap)
next
  fix a b c :: jsstring
  assume "ordinal_compare a b \<le> 0 \<and> ordinal_compare b c \<le> 0"
  then show "ordinal_compare a c \<le> 0"
    using ordinal_compare_trans[of a b c] by simp
qed


subsection \<open>The stable sort\<close>















subsection \<open>The comparators\<close>






















subsection \<open>The claims about sortTasks\<close>









section \<open>Task management: adding, editing and the ids\<close>

lemma tasks_call_saveData [simp]: "tasks (call_saveData h w) = tasks w"
  by (simp add: call_saveData_def split: sum.splits)

lemma tasks_renderTasks [simp]: "tasks (renderTasks h now w) = tasks w"
  by (simp add: renderTasks_def)

lemma tasks_showView [simp]: "tasks (showView v w) = tasks w"
  by (simp add: showView_def)

lemma tasks_resetTaskDraft [simp]: "tasks (resetTaskDraft w) = tasks w"
  by (simp add: resetTaskDraft_def)

lemma tasks_others [simp]:
  "tasks (showAddView w) = tasks w" "tasks (cancelAdd w) = tasks w"
  "tasks (handleSideClick w) = tasks w" "tasks (processVoiceResponse d w) = tasks w"
  "tasks (showEditView i w) = tasks w" "tasks (cancelEdit w) = tasks w"
  "tasks (toggleSort h now w) = tasks w"
  by (simp_all add: showAddView_def cancelAdd_def handleSideClick_def startVoiceInput_def
      stopVoiceInput_def processVoiceResponse_def showEditView_def cancelEdit_def toggleSort_def
      Let_def split: option.splits)

lemma dropWhile_all: "list_all P xs \<Longrightarrow> dropWhile P xs = []"
  by (induction xs) auto

lemma trim_whitespace: "list_all is_js_space s \<Longrightarrow> trim s = []"
  by (simp add: trim_def dropWhile_all)

text \<open>
  Claim C7. When the task text of the draft is empty, \<open>confirmTask\<close> returns at once:
  the whole state is as before, so the task list, the two registries and the storage
  are unchanged.
\<close>

theorem confirmTask_empty_noop:
  "draft_task (currentTaskDraft w) = [] \<Longrightarrow>
   confirmTask h now w = w \<and>
   tasks (confirmTask h now w) = tasks w \<and>
   projects (confirmTask h now w) = projects w \<and>
   organizations (confirmTask h now w) = organizations w \<and>
   storage (confirmTask h now w) = storage w"
  by (simp add: confirmTask_def)

text \<open>The theorem at the initial state, whose draft is empty.\<close>

theorem confirmTask_empty_noop_witness:
  "draft_task (currentTaskDraft (initial_world empty_store)) = [] \<and>
   confirmTask (utc_host False) 1715342400123 (initial_world empty_store) =
     initial_world empty_store \<and>
   tasks (confirmTask (utc_host False) 1715342400123 (initial_world empty_store)) = [] \<and>
   item (storage (confirmTask (utc_host False) 1715342400123 (initial_world empty_store))) = None"
proof -
  have d: "draft_task (currentTaskDraft (initial_world empty_store)) = []"
    by (simp add: initial_world_def empty_draft_def)
  show ?thesis
    using confirmTask_empty_noop[OF d, of "utc_host False" 1715342400123] d
    by (simp add: initial_world_def empty_store_def)
qed

lemma map_taskId_update_first:
  "(\<And>t. taskId (f t) = taskId t) \<Longrightarrow> map taskId (update_first P f ts) = map taskId ts"
  by (induction ts) auto

lemma ids_confirmTask:
  "map taskId (tasks (confirmTask h now w)) =
     (if draft_task (currentTaskDraft w) = [] then map taskId (tasks w)
      else map taskId (tasks w) @ [now])"
  by (simp add: confirmTask_def Let_def)

lemma ids_saveEdit: "map taskId (tasks (saveEdit h now inp w)) = map taskId (tasks w)"
  by (simp add: saveEdit_def Let_def map_taskId_update_first split: option.splits)

lemma ids_toggleTaskComplete:
  "map taskId (tasks (toggleTaskComplete h now i w)) = map taskId (tasks w)"
  by (simp add: toggleTaskComplete_def map_taskId_update_first split: option.splits)

lemma ids_deleteTask:
  "distinct (map taskId (tasks w)) \<Longrightarrow> distinct (map taskId (tasks (deleteTask h now c w)))"
  by (simp add: deleteTask_def distinct_map_filter split: option.splits)

lemma distinct_handle:
  assumes "distinct (map taskId (tasks w))"
    and "case e of ConfirmTask \<Rightarrow> now \<notin> set (map taskId (tasks w)) | _ \<Rightarrow> True"
  shows "distinct (map taskId (tasks (handle h now e w)))"
proof (cases e)
  case ConfirmTask
  with assms show ?thesis by (simp add: ids_confirmTask)
next
  case (SaveEdit inp)
  with assms show ?thesis by (simp add: ids_saveEdit)
next
  case (DeleteTask c)
  with assms show ?thesis by (simp add: ids_deleteTask)
next
  case (ToggleTaskComplete i)
  with assms show ?thesis by (simp add: ids_toggleTaskComplete)
qed (use assms in simp_all)

text \<open>
  Claim C8, amended. \<open>confirmTask\<close> with a task text in the draft appends a task
  whose id is the clock reading of the run, whatever the ids in the list. From a
  state whose ids are all different, every run of handlers in which each
  \<open>ConfirmTask\<close> happens at a clock reading that is not an id in the list at that
  moment ends in a state whose ids are all different.
\<close>

theorem ids_unique_under_fresh_clock:
  "map taskId (tasks (confirmTask h now w)) =
     (if draft_task (currentTaskDraft w) = [] then map taskId (tasks w)
      else map taskId (tasks w) @ [now]) \<and>
   (distinct (map taskId (tasks w)) \<and> fresh_clock h es w \<longrightarrow>
      distinct (map taskId (tasks (run h es w))))"
proof
  show "map taskId (tasks (confirmTask h now w)) =
     (if draft_task (currentTaskDraft w) = [] then map taskId (tasks w)
      else map taskId (tasks w) @ [now])"
    by (rule ids_confirmTask)
  show "distinct (map taskId (tasks w)) \<and> fresh_clock h es w \<longrightarrow>
      distinct (map taskId (tasks (run h es w)))"
  proof (induction es arbitrary: w)
    case Nil
    then show ?case by simp
  next
    case (Cons x es)
    obtain t e where x: "x = (t, e)" by (cases x)
    show ?case
    proof
      assume p: "distinct (map taskId (tasks w)) \<and> fresh_clock h (x # es) w"
      then have d: "distinct (map taskId (tasks (handle h t e w)))"
        unfolding x by (intro distinct_handle) simp_all
      from p have "fresh_clock h es (handle h t e w)" unfolding x by simp
      with d Cons.IH[of "handle h t e w"] show "distinct (map taskId (tasks (run h (x # es) w)))"
        unfolding x by simp
    qed
  qed
qed

lemmas run_simps =
  add_flow_def example_draft_def initial_world_def empty_store_def empty_draft_def
  showAddView_def resetTaskDraft_def showView_def processVoiceResponse_def confirmTask_def
  call_saveData_def renderTasks_def Let_def

lemma ids_after_two_flows:
  "map taskId (tasks (run h (add_flow t1 t2 t3 @ add_flow t4 t5 t6) (initial_world empty_store))) =
     [t3, t6]"
  by (simp add: run_simps asc_def split: sum.splits)

text \<open>
  Claim C8 as stated fails: two add flows from the initial state whose confirmations
  read the same clock value (5000) leave two tasks with the id 5000.
\<close>

theorem duplicate_id_counterexample:
  "map taskId (tasks (run (utc_host False) (add_flow 1000 3000 5000 @ add_flow 2000 4000 5000)
       (initial_world empty_store))) = [5000, 5000] \<and>
   \<not> distinct (map taskId (tasks (run (utc_host False)
       (add_flow 1000 3000 5000 @ add_flow 2000 4000 5000) (initial_world empty_store))))"
  by (simp add: ids_after_two_flows)

lemma fresh_two_flows:
  "t3 \<noteq> t6 \<Longrightarrow>
   fresh_clock h (add_flow t1 t2 t3 @ add_flow t4 t5 t6) (initial_world empty_store)"
  by (simp add: run_simps asc_def split: sum.splits)

text \<open>The theorem at two add flows confirmed at different clock readings.\<close>

theorem ids_unique_under_fresh_clock_witness:
  "distinct (map taskId (tasks (initial_world empty_store))) \<and>
   fresh_clock (utc_host False) (add_flow 1000 3000 5000 @ add_flow 6000 7000 8000)
     (initial_world empty_store) \<and>
   map taskId (tasks (run (utc_host False)
     (add_flow 1000 3000 5000 @ add_flow 6000 7000 8000) (initial_world empty_store))) =
     [5000, 8000] \<and>
   distinct (map taskId (tasks (run (utc_host False)
     (add_flow 1000 3000 5000 @ add_flow 6000 7000 8000) (initial_world empty_store))))"
proof -
  have d: "distinct (map taskId (tasks (initial_world empty_store)))"
    by (simp add: initial_world_def)
  have f: "fresh_clock (utc_host False) (add_flow 1000 3000 5000 @ add_flow 6000 7000 8000)
     (initial_world empty_store)"
    by (rule fresh_two_flows) simp
  have i: "map taskId (tasks (run (utc_host False)
     (add_flow 1000 3000 5000 @ add_flow 6000 7000 8000) (initial_world empty_store))) =
     [5000, 8000]"
    by (rule ids_after_two_flows)
  from ids_unique_under_fresh_clock[of "utc_host False" 0 "initial_world empty_store"
      "add_flow 1000 3000 5000 @ add_flow 6000 7000 8000"] d f
  have "distinct (map taskId (tasks (run (utc_host False)
     (add_flow 1000 3000 5000 @ add_flow 6000 7000 8000) (initial_world empty_store))))"
    by blast
  with d f i show ?thesis by blast
qed

section \<open>Rendering: the overdue marker and escaping\<close>


lemma dateParse_example: "utc_dateParse (asc ''2024-05-10'') = Some 1715299200000"
  by (simp add: utc_dateParse_def asc_def is_digit_def digits_value_def days_in_month_def
      days_from_civil_def ms_per_day_def Let_def)

text \<open>
  Claim C5 at a task due on 2024-05-10 and not completed, rendered at noon (UTC) of
  2024-05-10: the due date is not before the current date, so the claim has no marker;
  the code compares the midnight that starts the due date with the current instant,
  marks the task overdue and labels the same tag \<open>Today\<close>.
\<close>

theorem due_today_marked_overdue:
  \<open>isOverdue (utc_host False) 1715342400000 (example_task 1 [] ''2024-05-10'' ''c'') \<and>
   \<not> spec_overdue (asc ''2024-05-10'') (example_task 1 [] ''2024-05-10'' ''c'') \<and>
   formatDate (utc_host False) 1715342400000 (asc ''2024-05-10'') = asc ''Today'' \<and>
   renderTask (utc_host False) 1715342400000 (example_task 1 [] ''2024-05-10'' ''c'') =
     nl 12 @ asc ''<div class="task-item " '' @
     nl 17 @ asc ''onclick="showEditView(1)"'' @
     nl 17 @ asc ''data-task-id="1">'' @
     nl 16 @ asc ''<div class="task-title">t</div>'' @
     nl 16 @ asc ''<div class="task-meta">'' @
     nl 20 @ nl 20 @
     nl 20 @ asc ''<span class="task-tag due overdue">'' @ icon_due @ asc '' Today</span>'' @
     nl 16 @ asc ''</div>'' @
     nl 12 @ asc ''</div>'' @
     nl 8\<close>
proof (intro conjI)
  have d: "dateParse (utc_host False) (asc ''2024-05-10'') = Some 1715299200000"
    by (simp add: utc_host_def dateParse_example)
  have e: "dueDate (example_task 1 [] ''2024-05-10'' ''c'') = asc ''2024-05-10''"
    "\<not> completed (example_task 1 [] ''2024-05-10'' ''c'')"
    "asc ''2024-05-10'' \<noteq> []"
    by (simp_all add: example_task_def asc_def)
  show o: "isOverdue (utc_host False) 1715342400000 (example_task 1 [] ''2024-05-10'' ''c'')"
    by (simp add: isOverdue_def e d)
  show "\<not> spec_overdue (asc ''2024-05-10'') (example_task 1 [] ''2024-05-10'' ''c'')"
    by (simp add: spec_overdue_def e ordinal_compare_refl)
  have "setHoursZero (utc_host False) 1715342400000 = 1715299200000"
    "setHoursZero (utc_host False) 1715299200000 = 1715299200000"
    by (simp_all add: utc_host_def ms_per_day_def)
  then show f: "formatDate (utc_host False) 1715342400000 (asc ''2024-05-10'') = asc ''Today''"
    by (simp add: formatDate_def d e Let_def)
  have n: "numberToString 1 = asc ''1''"
    by (simp add: numberToString_def digits.simps asc_def)
  show \<open>renderTask (utc_host False) 1715342400000 (example_task 1 [] ''2024-05-10'' ''c'') =
     nl 12 @ asc ''<div class="task-item " '' @
     nl 17 @ asc ''onclick="showEditView(1)"'' @
     nl 17 @ asc ''data-task-id="1">'' @
     nl 16 @ asc ''<div class="task-title">t</div>'' @
     nl 16 @ asc ''<div class="task-meta">'' @
     nl 20 @ nl 20 @
     nl 20 @ asc ''<span class="task-tag due overdue">'' @ icon_due @ asc '' Today</span>'' @
     nl 16 @ asc ''</div>'' @
     nl 12 @ asc ''</div>'' @
     nl 8\<close>
    unfolding renderTask_def using o
    by (simp add: e f n) (simp add: n example_task_def asc_def escapeHtml_def escape_unit_def)
qed
















section \<open>JSON: what is printed parses back\<close>


lemma JSON_parse_brace: "JSON_parse (asc ''{'') = Inl SyntaxError"
  by (simp add: JSON_parse_def asc_def eval_nat_numeral)

lemma digits_less: "n < 10 \<Longrightarrow> digits n = [48 + n]"
  by (simp add: digits.simps)

lemma digits_ge: "10 \<le> n \<Longrightarrow> digits n = digits (n div 10) @ [48 + n mod 10]"
  by (subst digits.simps) simp

lemma digits_all: "list_all is_digit (digits n)"
proof (induction n rule: digits.induct)
  case (1 n)
  show ?case
  proof (cases "n < 10")
    case True
    then show ?thesis by (simp add: digits_less is_digit_def)
  next
    case False
    then have "list_all is_digit (digits (n div 10))" using 1 by simp
    moreover have "is_digit (48 + n mod 10)" by (simp add: is_digit_def)
    ultimately show ?thesis using False by (simp add: digits_ge)
  qed
qed

lemma digits_nonempty: "digits n \<noteq> []"
  by (cases "n < 10") (simp_all add: digits_less digits_ge)

lemma digits_value_append: "digits_value (ds @ [d]) = 10 * digits_value ds + (d - 48)"
  by (simp add: digits_value_def)

lemma digits_value_digits: "digits_value (digits n) = n"
proof (induction n rule: digits.induct)
  case (1 n)
  show ?case
  proof (cases "n < 10")
    case True
    then show ?thesis by (simp add: digits_less digits_value_def)
  next
    case False
    then have "digits_value (digits (n div 10)) = n div 10" using 1 by simp
    with False show ?thesis by (simp add: digits_ge digits_value_append)
  qed
qed

lemma digits_hd: "hd (digits n) = 48 \<Longrightarrow> n = 0"
proof (induction n rule: digits.induct)
  case (1 n)
  show ?case
  proof (cases "n < 10")
    case True
    with "1.prems" show ?thesis by (simp add: digits_less)
  next
    case False
    then have "hd (digits n) = hd (digits (n div 10))"
      by (simp add: digits_ge digits_nonempty)
    with 1 False have "n div 10 = 0" by simp
    with False show ?thesis by simp
  qed
qed


lemma takeWhile_digits:
  assumes "number_end r"
  shows "takeWhile is_digit (digits n @ r) = digits n" "dropWhile is_digit (digits n @ r) = r"
proof -
  have a: "\<forall>x\<in>set (digits n). is_digit x" using digits_all[of n] by (simp add: list_all_iff)
  have b: "takeWhile is_digit r = []" "dropWhile is_digit r = r"
    using assms by (cases r; simp add: number_end_def)+
  show "takeWhile is_digit (digits n @ r) = digits n"
    using a b by (simp add: takeWhile_append2)
  show "dropWhile is_digit (digits n @ r) = r"
    using a b by (simp add: dropWhile_append2)
qed

lemma digits_Cons: "\<exists>c cs. digits n = c # cs \<and> is_digit c"
  using digits_nonempty[of n] digits_all[of n] by (cases "digits n") simp_all

lemma parse_int_part_digits:
  assumes "number_end r"
  shows "parse_int_part (digits n @ r) = Some (digits n, r)"
proof -
  obtain c cs where d: "digits n = c # cs" "is_digit c" using digits_Cons by blast
  show ?thesis
  proof (cases "c = 48")
    case True
    then have "hd (digits n) = 48" using d by simp
    then have "n = 0" by (rule digits_hd)
    then have "digits n = [48]" by (simp add: digits_less)
    then show ?thesis by (simp add: parse_int_part_def)
  next
    case False
    have "parse_int_part (c # cs @ r) =
          Some (takeWhile is_digit (c # cs @ r), dropWhile is_digit (c # cs @ r))"
      using False d(2) unfolding parse_int_part_def by simp
    then show ?thesis using takeWhile_digits[OF assms, of n] d(1) by simp
  qed
qed

lemma parse_fraction_end: "number_end r \<Longrightarrow> parse_fraction r = Some ([], r)"
  by (cases r) (simp_all add: parse_fraction_def number_end_def)

lemma parse_exponent_end: "number_end r \<Longrightarrow> parse_exponent r = Some ([], r)"
  by (cases r) (simp_all add: parse_exponent_def number_end_def)

lemma parse_number_digits:
  assumes "number_end r"
  shows "parse_number (digits n @ r) = Some (JNum (int n), r)"
proof -
  obtain c cs where d: "digits n = c # cs" "is_digit c" using digits_Cons by blast
  then have "c \<noteq> 45" by (auto simp: is_digit_def)
  then have ne: "(case digits n @ r of [] \<Rightarrow> False | c # x \<Rightarrow> c = 45) = False"
    using d(1) by simp
  show ?thesis
    unfolding parse_number_def ne
    by (simp add: parse_int_part_digits[OF assms] parse_fraction_end[OF assms]
        parse_exponent_end[OF assms] digits_value_digits)
qed

lemma parse_number_minus:
  assumes "number_end r"
  shows "parse_number (45 # digits n @ r) = Some (JNum (- int n), r)"
  unfolding parse_number_def
  by (simp add: parse_int_part_digits[OF assms] parse_fraction_end[OF assms]
      parse_exponent_end[OF assms] digits_value_digits)

lemma parse_number_numberToString:
  "number_end r \<Longrightarrow> parse_number (numberToString i @ r) = Some (JNum i, r)"
  by (cases "i < 0") (simp_all add: numberToString_def parse_number_digits parse_number_minus)

lemma numberToString_Cons: "\<exists>c cs. numberToString i = c # cs \<and> (is_digit c \<or> c = 45)"
  using digits_Cons[of "nat i"] by (auto simp: numberToString_def)

lemma parse_scalar_number:
  assumes "number_end r"
  shows "parse_scalar (numberToString i @ r) = Some (JNum i, r)"
proof -
  obtain c cs where d: "numberToString i = c # cs" "is_digit c \<or> c = 45"
    using numberToString_Cons by blast
  then have "c \<noteq> 116" "c \<noteq> 102" "c \<noteq> 110" by (auto simp: is_digit_def)
  then have "parse_scalar (c # cs @ r) = parse_number (c # cs @ r)"
    by (simp add: parse_scalar_def asc_def)
  then show ?thesis using parse_number_numberToString[OF assms, of i] d(1) by simp
qed

lemma parse_scalar_literals:
  "parse_scalar (asc ''null'' @ r) = Some (JNull, r)"
  "parse_scalar (asc ''true'' @ r) = Some (JBool True, r)"
  "parse_scalar (asc ''false'' @ r) = Some (JBool False, r)"
  by (simp_all add: parse_scalar_def asc_def)


lemma hex_value_hex_digit: "d < 16 \<Longrightarrow> hex_value (hex_digit d) = Some d"
  by (simp add: hex_value_def hex_digit_def)

lemma hex_step1: "(c::nat) div 16 * 16 + c mod 16 = c"
  by simp

lemma hex_step2: "(c::nat) div 256 * 16 + c div 16 mod 16 = c div 16"
proof -
  have "c div (16 * 16) = c div 16 div 16" by (rule div_mult2_eq)
  then have "c div 256 = c div 16 div 16" by simp
  then show ?thesis by simp
qed

lemma hex_step3: "(c::nat) div 4096 * 16 + c div 256 mod 16 = c div 256"
proof -
  have "c div (256 * 16) = c div 256 div 16" by (rule div_mult2_eq)
  then have "c div 4096 = c div 256 div 16" by simp
  then show ?thesis by simp
qed

lemma hex_split:
  "(c::nat) div 4096 * 4096 + c div 256 mod 16 * 256 + c div 16 mod 16 * 16 + c mod 16 = c"
  using hex_step1[of c] hex_step2[of c] hex_step3[of c] by linarith

lemma hex4_value_escape:
  assumes "c < 65536"
  shows "hex4_value (hex_digit (c div 4096 mod 16)) (hex_digit (c div 256 mod 16))
           (hex_digit (c div 16 mod 16)) (hex_digit (c mod 16)) = Some c"
proof -
  have "c div 4096 < 16" using assms by (simp add: less_mult_imp_div_less)
  then have 4: "c div 4096 mod 16 = c div 4096" by simp
  have "hex4_value (hex_digit (c div 4096 mod 16)) (hex_digit (c div 256 mod 16))
           (hex_digit (c div 16 mod 16)) (hex_digit (c mod 16)) =
        Some (c div 4096 mod 16 * 4096 + c div 256 mod 16 * 256 + c div 16 mod 16 * 16 + c mod 16)"
    by (simp add: hex4_value_def hex_value_hex_digit)
  then show ?thesis unfolding 4 by (simp only: hex_split)
qed

lemma parse_chars_unicode_escape:
  "c < 65536 \<Longrightarrow> parse_chars (unicode_escape c @ r) = cons_result c (parse_chars r)"
  using hex4_value_escape[of c] by (simp add: unicode_escape_def)

lemma parse_chars_plain:
  "c \<noteq> 34 \<Longrightarrow> c \<noteq> 92 \<Longrightarrow> 32 \<le> c \<Longrightarrow> parse_chars (c # r) = cons_result c (parse_chars r)"
  by simp

lemma parse_chars_quote_unit:
  "parse_chars (quote_unit c @ r) = cons_result c (parse_chars r)"
proof -
  consider "c = 8" | "c = 9" | "c = 10" | "c = 12" | "c = 13" | "c = 34" | "c = 92"
    | "c \<notin> {8, 9, 10, 12, 13, 34, 92}" "c < 32 \<or> is_high_surrogate c \<or> is_low_surrogate c"
    | "c \<notin> {8, 9, 10, 12, 13, 34, 92}" "\<not> (c < 32 \<or> is_high_surrogate c \<or> is_low_surrogate c)"
    by blast
  then show ?thesis
  proof cases
    case 8
    then have "c < 65536" by (auto simp: is_high_surrogate_def is_low_surrogate_def)
    then have "parse_chars (unicode_escape c @ r) = cons_result c (parse_chars r)"
      by (rule parse_chars_unicode_escape)
    moreover have "quote_unit c = unicode_escape c" using 8 by (simp add: quote_unit_def)
    ultimately show ?thesis by simp
  next
    case 9
    then have "quote_unit c = [c]" by (simp add: quote_unit_def)
    moreover have "parse_chars (c # r) = cons_result c (parse_chars r)"
      using 9 by (intro parse_chars_plain) auto
    ultimately show ?thesis by simp
  qed (simp_all add: quote_unit_def simple_escape_def)
qed

lemma parse_chars_close: "parse_chars (34 # r) = Some ([], r)"
  by simp

lemma parse_chars_quoteJSON: "parse_chars (quoteJSON s @ 34 # r) = Some (s, r)"
proof (induction s rule: quoteJSON.induct)
  case 1
  then show ?case by (simp only: quoteJSON.simps append_Nil parse_chars_close)
next
  case (2 c)
  have "parse_chars (quote_unit c @ 34 # r) = cons_result c (parse_chars (34 # r))"
    by (rule parse_chars_quote_unit)
  then show ?case
    by (simp only: quoteJSON.simps parse_chars_close cons_result_def option.case prod.case)
next
  case (3 c d cs)
  show ?case
  proof (cases "is_high_surrogate c \<and> is_low_surrogate d")
    case True
    then have c: "c \<noteq> 34" "c \<noteq> 92" "32 \<le> c" and d: "d \<noteq> 34" "d \<noteq> 92" "32 \<le> d"
      by (simp_all add: is_high_surrogate_def is_low_surrogate_def)
    have "parse_chars (c # d # quoteJSON cs @ 34 # r) =
          cons_result c (parse_chars (d # quoteJSON cs @ 34 # r))"
      by (rule parse_chars_plain[OF c])
    also have "parse_chars (d # quoteJSON cs @ 34 # r) =
               cons_result d (parse_chars (quoteJSON cs @ 34 # r))"
      by (rule parse_chars_plain[OF d])
    also have "parse_chars (quoteJSON cs @ 34 # r) = Some (cs, r)"
      using 3(1)[OF True] .
    finally have "parse_chars (c # d # quoteJSON cs @ 34 # r) = Some (c # d # cs, r)"
      by (simp only: cons_result_def option.case prod.case)
    moreover have "quoteJSON (c # d # cs) = c # d # quoteJSON cs"
      using True by (simp only: quoteJSON.simps) simp
    ultimately show ?thesis by simp
  next
    case False
    have "parse_chars (quote_unit c @ quoteJSON (d # cs) @ 34 # r) =
          cons_result c (parse_chars (quoteJSON (d # cs) @ 34 # r))"
      by (rule parse_chars_quote_unit)
    also have "parse_chars (quoteJSON (d # cs) @ 34 # r) = Some (d # cs, r)"
      using 3(2)[OF False] .
    finally have "parse_chars (quote_unit c @ quoteJSON (d # cs) @ 34 # r) = Some (c # d # cs, r)"
      by (simp only: cons_result_def option.case prod.case)
    moreover have "quoteJSON (c # d # cs) = quote_unit c @ quoteJSON (d # cs)"
      by (simp only: quoteJSON.simps False if_False)
    ultimately show ?thesis by simp
  qed
qed


lemma pv_array_empty: "parse_value (Suc m) (91 # 93 # r) = Inr (JArr [], r)"
  by simp

lemma pv_object_empty: "parse_value (Suc m) (123 # 125 # r) = Inr (JObj [], r)"
  by simp

lemma pv_array:
  assumes "d \<noteq> 32" "d \<noteq> 9" "d \<noteq> 10" "d \<noteq> 13" "d \<noteq> 93"
  shows "parse_value (Suc m) (91 # d # ds) =
         (case parse_elements m (d # ds) of Inl e \<Rightarrow> Inl e | Inr (vs, r') \<Rightarrow> Inr (JArr vs, r'))"
  using assms by simp

lemma pv_object:
  assumes "d \<noteq> 32" "d \<noteq> 9" "d \<noteq> 10" "d \<noteq> 13" "d \<noteq> 125"
  shows "parse_value (Suc m) (123 # d # ds) =
         (case parse_members m (d # ds) of Inl e \<Rightarrow> Inl e | Inr (kvs, r') \<Rightarrow> Inr (JObj kvs, r'))"
  using assms by simp

lemma pv_string:
  "parse_value (Suc m) (34 # cs) =
   (case parse_chars cs of None \<Rightarrow> Inl Malformed | Some (str, r) \<Rightarrow> Inr (JStr str, r))"
  by simp

lemma pv_scalar:
  assumes "c \<noteq> 32" "c \<noteq> 9" "c \<noteq> 10" "c \<noteq> 13" "c \<noteq> 91" "c \<noteq> 123" "c \<noteq> 34"
  shows "parse_value (Suc m) (c # cs) =
         (case parse_scalar (c # cs) of None \<Rightarrow> Inl Malformed | Some res \<Rightarrow> Inr res)"
  using assms by simp

lemma pe_last:
  "parse_value m s = Inr (v, 93 # r) \<Longrightarrow> parse_elements (Suc m) s = Inr ([v], r)"
  by simp

lemma pe_step:
  "parse_value m s = Inr (v, 44 # r) \<Longrightarrow> parse_elements m r = Inr (vs, r') \<Longrightarrow>
   parse_elements (Suc m) s = Inr (v # vs, r')"
  by simp

lemma pm_last:
  "parse_chars cs = Some (k, 58 # r1) \<Longrightarrow> parse_value m r1 = Inr (v, 125 # r) \<Longrightarrow>
   parse_members (Suc m) (34 # cs) = Inr ([(k, v)], r)"
  by simp

lemma pm_step:
  "parse_chars cs = Some (k, 58 # r1) \<Longrightarrow> parse_value m r1 = Inr (v, 44 # r) \<Longrightarrow>
   parse_members m r = Inr (kvs, r') \<Longrightarrow>
   parse_members (Suc m) (34 # cs) = Inr ((k, v) # kvs, r')"
  by simp


lemma stringify_head:
  "plain v \<Longrightarrow>
   \<exists>c cs. JSON_stringify v = c # cs \<and>
     (is_digit c \<or> c = 45 \<or> c = 110 \<or> c = 116 \<or> c = 102 \<or> c = 34 \<or> c = 91 \<or> c = 123)"
proof (cases v)
  case (JNum i)
  then show ?thesis using numberToString_Cons[of i] by auto
qed (simp_all add: asc_def)

lemma stringify_elements_head:
  assumes "vs \<noteq> []" "plain_elements vs"
  shows "\<exists>c cs. stringify_elements vs = c # cs \<and>
     (is_digit c \<or> c = 45 \<or> c = 110 \<or> c = 116 \<or> c = 102 \<or> c = 34 \<or> c = 91 \<or> c = 123)"
proof -
  obtain v ws where vs: "vs = v # ws" using assms(1) by (cases vs) auto
  with assms(2) have "plain v" by simp
  from stringify_head[OF this] obtain c cs where
    h: "JSON_stringify v = c # cs"
    "is_digit c \<or> c = 45 \<or> c = 110 \<or> c = 116 \<or> c = 102 \<or> c = 34 \<or> c = 91 \<or> c = 123"
    by blast
  show ?thesis
  proof (cases ws)
    case Nil
    with vs h show ?thesis by simp
  next
    case (Cons w ws')
    with vs h show ?thesis by simp
  qed
qed

lemma stringify_members_head:
  "kvs \<noteq> [] \<Longrightarrow> \<exists>cs. stringify_members kvs = 34 # cs"
proof (cases kvs)
  case (Cons kv rest)
  obtain k v where "kv = (k, v)" by (cases kv)
  with Cons show ?thesis by (cases rest) simp_all
qed simp

lemma pv_scalar_text:
  assumes "parse_scalar (c # cs @ r) = Some (v, r)"
    and "is_digit c \<or> c = 45 \<or> c = 110 \<or> c = 116 \<or> c = 102"
    and "length (c # cs) \<le> n"
  shows "parse_value n (c # cs @ r) = Inr (v, r)"
proof -
  obtain m where n: "n = Suc m" using assms(3) by (cases n) auto
  have c: "c \<noteq> 32" "c \<noteq> 9" "c \<noteq> 10" "c \<noteq> 13" "c \<noteq> 91" "c \<noteq> 123" "c \<noteq> 34"
    using assms(2) by (auto simp: is_digit_def)
  show ?thesis unfolding n by (simp only: pv_scalar[OF c] assms(1) option.case)
qed

lemma parse_stringify:
  "plain v \<longrightarrow> (\<forall>n r. length (JSON_stringify v) \<le> n \<longrightarrow> number_end r \<longrightarrow>
      parse_value n (JSON_stringify v @ r) = Inr (v, r))"
  "vs \<noteq> [] \<longrightarrow> plain_elements vs \<longrightarrow> (\<forall>n r. length (stringify_elements vs) \<le> n \<longrightarrow>
      parse_elements n (stringify_elements vs @ r) = Inr (vs, r))"
  "kvs \<noteq> [] \<longrightarrow> plain_members kvs \<longrightarrow> (\<forall>n r. length (stringify_members kvs) \<le> n \<longrightarrow>
      parse_members n (stringify_members kvs @ r) = Inr (kvs, r))"
proof (induction v and vs and kvs rule: JSON_stringify_stringify_elements_stringify_members.induct)
  case 1
  show ?case
  proof (intro impI allI)
    fix n r assume "length (JSON_stringify JNull) \<le> n"
    then have "length (110 # asc ''ull'') \<le> n" by (simp add: asc_def)
    moreover have "parse_scalar (110 # asc ''ull'' @ r) = Some (JNull, r)"
      using parse_scalar_literals(1)[of r] by (simp add: asc_def)
    ultimately have "parse_value n (110 # asc ''ull'' @ r) = Inr (JNull, r)"
      by (intro pv_scalar_text) simp_all
    then show "parse_value n (JSON_stringify JNull @ r) = Inr (JNull, r)"
      by (simp add: asc_def)
  qed
next
  case (2 b)
  show ?case
  proof (intro impI allI)
    fix n r assume l: "length (JSON_stringify (JBool b)) \<le> n"
    show "parse_value n (JSON_stringify (JBool b) @ r) = Inr (JBool b, r)"
    proof (cases b)
      case True
      from l True have "length (116 # asc ''rue'') \<le> n" by (simp add: asc_def)
      moreover have "parse_scalar (116 # asc ''rue'' @ r) = Some (JBool True, r)"
        using parse_scalar_literals(2)[of r] by (simp add: asc_def)
      ultimately have "parse_value n (116 # asc ''rue'' @ r) = Inr (JBool True, r)"
        by (intro pv_scalar_text) simp_all
      with True show ?thesis by (simp add: asc_def)
    next
      case False
      from l False have "length (102 # asc ''alse'') \<le> n" by (simp add: asc_def)
      moreover have "parse_scalar (102 # asc ''alse'' @ r) = Some (JBool False, r)"
        using parse_scalar_literals(3)[of r] by (simp add: asc_def)
      ultimately have "parse_value n (102 # asc ''alse'' @ r) = Inr (JBool False, r)"
        by (intro pv_scalar_text) simp_all
      with False show ?thesis by (simp add: asc_def)
    qed
  qed
next
  case (3 i)
  show ?case
  proof (intro impI allI)
    fix n r assume l: "length (JSON_stringify (JNum i)) \<le> n" and e: "number_end r"
    obtain c cs where d: "numberToString i = c # cs" "is_digit c \<or> c = 45"
      using numberToString_Cons by blast
    have "parse_scalar (c # cs @ r) = Some (JNum i, r)"
      using parse_scalar_number[OF e, of i] d(1) by simp
    moreover have "length (c # cs) \<le> n" using l d(1) by simp
    ultimately have "parse_value n (c # cs @ r) = Inr (JNum i, r)"
      using d(2) by (intro pv_scalar_text) auto
    then show "parse_value n (JSON_stringify (JNum i) @ r) = Inr (JNum i, r)"
      using d(1) by simp
  qed
next
  case (4 t)
  show ?case by simp
next
  case (5 s)
  show ?case
  proof (intro impI allI)
    fix n r assume "length (JSON_stringify (JStr s)) \<le> n"
    then obtain m where n: "n = Suc m" by (cases n) auto
    have "parse_value (Suc m) (34 # quoteJSON s @ 34 # r) = Inr (JStr s, r)"
      by (simp only: pv_string parse_chars_quoteJSON option.case prod.case)
    then show "parse_value n (JSON_stringify (JStr s) @ r) = Inr (JStr s, r)"
      unfolding n by simp
  qed
next
  case (6 vs)
  show ?case
  proof (intro impI allI)
    fix n r assume p: "plain (JArr vs)" and l: "length (JSON_stringify (JArr vs)) \<le> n"
    then obtain m where n: "n = Suc m" by (cases n) auto
    show "parse_value n (JSON_stringify (JArr vs) @ r) = Inr (JArr vs, r)"
    proof (cases "vs = []")
      case True
      then show ?thesis unfolding n by (simp add: pv_array_empty del: parse_value.simps)
    next
      case False
      from p have pe: "plain_elements vs" by simp
      from stringify_elements_head[OF False pe] obtain d ds where
        h: "stringify_elements vs = d # ds"
        "is_digit d \<or> d = 45 \<or> d = 110 \<or> d = 116 \<or> d = 102 \<or> d = 34 \<or> d = 91 \<or> d = 123"
        by blast
      then have d: "d \<noteq> 32" "d \<noteq> 9" "d \<noteq> 10" "d \<noteq> 13" "d \<noteq> 93"
        by (auto simp: is_digit_def)
      have "length (stringify_elements vs) \<le> m" using l n by simp
      with 6 False pe have "parse_elements m (stringify_elements vs @ r) = Inr (vs, r)" by blast
      then have "parse_elements m (d # ds @ r) = Inr (vs, r)" using h(1) by simp
      then have "parse_value (Suc m) (91 # d # ds @ r) = Inr (JArr vs, r)"
        by (simp only: pv_array[OF d] sum.case prod.case)
      then show ?thesis unfolding n using h(1) by simp
    qed
  qed
next
  case (7 kvs)
  show ?case
  proof (intro impI allI)
    fix n r assume p: "plain (JObj kvs)" and l: "length (JSON_stringify (JObj kvs)) \<le> n"
    then obtain m where n: "n = Suc m" by (cases n) auto
    show "parse_value n (JSON_stringify (JObj kvs) @ r) = Inr (JObj kvs, r)"
    proof (cases "kvs = []")
      case True
      then show ?thesis unfolding n by (simp add: pv_object_empty del: parse_value.simps)
    next
      case False
      from p have pe: "plain_members kvs" by simp
      from stringify_members_head[OF False] obtain ds where
        h: "stringify_members kvs = 34 # ds" by blast
      have d: "(34::nat) \<noteq> 32" "(34::nat) \<noteq> 9" "(34::nat) \<noteq> 10" "(34::nat) \<noteq> 13"
        "(34::nat) \<noteq> 125"
        by simp_all
      have "length (stringify_members kvs) \<le> m" using l n by simp
      with 7 False pe have "parse_members m (stringify_members kvs @ r) = Inr (kvs, r)" by blast
      then have "parse_members m (34 # ds @ r) = Inr (kvs, r)" using h by simp
      then have "parse_value (Suc m) (123 # 34 # ds @ r) = Inr (JObj kvs, r)"
        by (simp only: pv_object[OF d] sum.case prod.case)
      then show ?thesis unfolding n using h by simp
    qed
  qed
next
  case 8
  show ?case by simp
next
  case (9 v)
  show ?case
  proof (intro impI allI)
    fix n r assume p: "plain_elements [v]" and l: "length (stringify_elements [v]) \<le> n"
    then obtain m where n: "n = Suc m" by (cases n) auto
    have "length (JSON_stringify v) \<le> m" using l n by simp
    moreover have "number_end (93 # r)" by (simp add: number_end_def is_digit_def)
    moreover have "plain v" using p by simp
    ultimately have "parse_value m (JSON_stringify v @ 93 # r) = Inr (v, 93 # r)"
      using 9 by blast
    then have "parse_elements (Suc m) (JSON_stringify v @ 93 # r) = Inr ([v], r)"
      by (rule pe_last)
    then show "parse_elements n (stringify_elements [v] @ r) = Inr ([v], r)"
      unfolding n by simp
  qed
next
  case (10 v w vs)
  show ?case
  proof (intro impI allI)
    fix n r assume p: "plain_elements (v # w # vs)"
      and l: "length (stringify_elements (v # w # vs)) \<le> n"
    then obtain m where n: "n = Suc m" by (cases n) auto
    have "length (JSON_stringify v) \<le> m" using l n by simp
    moreover have "number_end (44 # stringify_elements (w # vs) @ r)"
      by (simp add: number_end_def is_digit_def)
    moreover have "plain v" using p by simp
    ultimately have 1: "parse_value m (JSON_stringify v @ 44 # stringify_elements (w # vs) @ r) =
                        Inr (v, 44 # stringify_elements (w # vs) @ r)"
      using 10(1) by blast
    have "length (stringify_elements (w # vs)) \<le> m" using l n by simp
    moreover have "plain_elements (w # vs)" using p by simp
    ultimately have 2: "parse_elements m (stringify_elements (w # vs) @ r) = Inr (w # vs, r)"
      using 10(2) by blast
    have "parse_elements (Suc m) (JSON_stringify v @ 44 # stringify_elements (w # vs) @ r) =
          Inr (v # w # vs, r)"
      by (rule pe_step[OF 1 2])
    then show "parse_elements n (stringify_elements (v # w # vs) @ r) = Inr (v # w # vs, r)"
      unfolding n by simp
  qed
next
  case 11
  show ?case by simp
next
  case (12 k v)
  show ?case
  proof (intro impI allI)
    fix n r assume p: "plain_members [(k, v)]" and l: "length (stringify_members [(k, v)]) \<le> n"
    then obtain m where n: "n = Suc m" by (cases n) auto
    have 1: "parse_chars (quoteJSON k @ 34 # 58 # JSON_stringify v @ 125 # r) =
             Some (k, 58 # JSON_stringify v @ 125 # r)"
      by (rule parse_chars_quoteJSON)
    have "length (JSON_stringify v) \<le> m" using l n by simp
    moreover have "number_end (125 # r)" by (simp add: number_end_def is_digit_def)
    moreover have "plain v" using p by simp
    ultimately have 2: "parse_value m (JSON_stringify v @ 125 # r) = Inr (v, 125 # r)"
      using 12 by blast
    have "parse_members (Suc m) (34 # quoteJSON k @ 34 # 58 # JSON_stringify v @ 125 # r) =
          Inr ([(k, v)], r)"
      by (rule pm_last[OF 1 2])
    then show "parse_members n (stringify_members [(k, v)] @ r) = Inr ([(k, v)], r)"
      unfolding n by simp
  qed
next
  case (13 k v kv kvs)
  show ?case
  proof (intro impI allI)
    fix n r assume p: "plain_members ((k, v) # kv # kvs)"
      and l: "length (stringify_members ((k, v) # kv # kvs)) \<le> n"
    then obtain m where n: "n = Suc m" by (cases n) auto
    have 1: "parse_chars (quoteJSON k @ 34 # 58 # JSON_stringify v @
                 44 # stringify_members (kv # kvs) @ r) =
             Some (k, 58 # JSON_stringify v @ 44 # stringify_members (kv # kvs) @ r)"
      by (rule parse_chars_quoteJSON)
    have "length (JSON_stringify v) \<le> m" using l n by simp
    moreover have "number_end (44 # stringify_members (kv # kvs) @ r)"
      by (simp add: number_end_def is_digit_def)
    moreover have "plain v" using p by simp
    ultimately have 2: "parse_value m (JSON_stringify v @ 44 # stringify_members (kv # kvs) @ r) =
                        Inr (v, 44 # stringify_members (kv # kvs) @ r)"
      using 13(1) by blast
    have "length (stringify_members (kv # kvs)) \<le> m" using l n by simp
    moreover have "plain_members (kv # kvs)" using p by simp
    ultimately have 3: "parse_members m (stringify_members (kv # kvs) @ r) = Inr (kv # kvs, r)"
      using 13(2) by blast
    have "parse_members (Suc m) (34 # quoteJSON k @ 34 # 58 # JSON_stringify v @
              44 # stringify_members (kv # kvs) @ r) = Inr ((k, v) # kv # kvs, r)"
      by (rule pm_step[OF 1 2 3])
    then show "parse_members n (stringify_members ((k, v) # kv # kvs) @ r) =
               Inr ((k, v) # kv # kvs, r)"
      unfolding n by simp
  qed
qed

lemma JSON_parse_stringify: "plain v \<Longrightarrow> JSON_parse (JSON_stringify v) = Inr v"
proof -
  assume "plain v"
  moreover have "length (JSON_stringify v) \<le> 2 * length (JSON_stringify v) + 2" by simp
  moreover have "number_end []" by (simp add: number_end_def)
  ultimately have "parse_value (2 * length (JSON_stringify v) + 2) (JSON_stringify v @ []) = Inr (v, [])"
    using parse_stringify(1)[of v] by blast
  then show ?thesis by (simp add: JSON_parse_def)
qed

section \<open>Base64: what is encoded decodes back\<close>


lemma b64_char_cases:
  assumes "i < 64"
  obtains "i < 26" "b64_char i = 65 + i"
  | "26 \<le> i" "i < 52" "b64_char i = 71 + i"
  | "52 \<le> i" "i < 62" "b64_char i + 4 = i"
  | "i = 62" "b64_char i = 43"
  | "i = 63" "b64_char i = 47"
proof -
  consider "i < 26" | "26 \<le> i \<and> i < 52" | "52 \<le> i \<and> i < 62" | "i = 62" | "i = 63"
    using assms by linarith
  then show ?thesis
  proof cases
    case 1
    then show ?thesis using that(1) by (simp add: b64_char_def)
  next
    case 2
    then show ?thesis using that(2) by (simp add: b64_char_def)
  next
    case 3
    then show ?thesis using that(3) by (simp add: b64_char_def)
  next
    case 4
    then show ?thesis using that(4) by (simp add: b64_char_def)
  next
    case 5
    then show ?thesis using that(5) by (simp add: b64_char_def)
  qed
qed

lemma b64_index_char: "i < 64 \<Longrightarrow> b64_index (b64_char i) = Some i"
proof (erule b64_char_cases)
  assume "52 \<le> i" "i < 62" "b64_char i + 4 = i"
  then have "48 \<le> b64_char i" "b64_char i \<le> 57" by linarith+
  with \<open>b64_char i + 4 = i\<close> show ?thesis by (simp add: b64_index_def)
qed (simp_all add: b64_index_def)

lemma b64_char_range:
  assumes "i < 64"
  shows "b64_char i = 43 \<or> b64_char i = 47 \<or> (48 \<le> b64_char i \<and> b64_char i \<le> 57) \<or>
         (65 \<le> b64_char i \<and> b64_char i \<le> 90) \<or> (97 \<le> b64_char i \<and> b64_char i \<le> 122)"
  using assms by (rule b64_char_cases) linarith+

lemma b64_char_not:
  assumes "i < 64"
  shows "b64_char i \<noteq> 61" "\<not> is_ascii_whitespace (b64_char i)" "b64_char i \<noteq> 45"
    "b64_char i \<noteq> 95"
  using b64_char_range[OF assms] by (auto simp: is_ascii_whitespace_def)

lemma b64_char_plus: "i < 64 \<Longrightarrow> (b64_char i = 43) = (i = 62)"
  by (erule b64_char_cases) linarith+

lemma b64_char_slash: "i < 64 \<Longrightarrow> (b64_char i = 47) = (i = 63)"
  by (erule b64_char_cases) linarith+

lemma byte_div:
  assumes "(a::nat) \<le> 255"
  shows "a div 4 < 64" "a div 16 < 16" "a div 64 < 4"
  using assms less_mult_imp_div_less[of a 64 4] less_mult_imp_div_less[of a 16 16]
    less_mult_imp_div_less[of a 4 64] by simp_all

lemma sextet_bounds:
  assumes "(a::nat) \<le> 255" "(b::nat) \<le> 255"
  shows "a mod 4 * 16 < 64" "a mod 4 * 16 + b div 16 < 64" "a mod 16 * 4 < 64"
    "a mod 16 * 4 + b div 64 < 64" "a mod 64 < 64"
proof -
  have m: "a mod 4 < 4" "a mod 16 < 16" by simp_all
  from m(1) show "a mod 4 * 16 < 64" by linarith
  from m(1) byte_div(2)[OF assms(2)] show "a mod 4 * 16 + b div 16 < 64" by linarith
  from m(2) show "a mod 16 * 4 < 64" by linarith
  from m(2) byte_div(3)[OF assms(2)] show "a mod 16 * 4 + b div 64 < 64" by linarith
  show "a mod 64 < 64" by simp
qed

lemma sextets_lt:
  "list_all (\<lambda>b. b \<le> 255) bs \<Longrightarrow> list_all (\<lambda>i. i < 64) (b64_sextets bs)"
proof (induction bs rule: b64_sextets.induct)
  case (2 a)
  then show ?case by (simp add: byte_div sextet_bounds)
next
  case (3 a b)
  then show ?case by (simp add: byte_div sextet_bounds)
next
  case (4 a b c bs)
  then show ?case by (simp add: byte_div sextet_bounds)
qed simp

lemma join_high: "(b::nat) < 16 \<Longrightarrow> (x * 16 + b) div 16 = x" "(b::nat) < 16 \<Longrightarrow> (x * 16 + b) mod 16 = b"
  by simp_all

lemma join_low: "(c::nat) < 4 \<Longrightarrow> (x * 4 + c) div 4 = x" "(c::nat) < 4 \<Longrightarrow> (x * 4 + c) mod 4 = c"
  by simp_all

lemma b64_decode_sextets:
  "list_all (\<lambda>b. b \<le> 255) bs \<Longrightarrow> b64_decode (b64_sextets bs) = bs"
proof (induction bs rule: b64_sextets.induct)
  case (2 a)
  have "a div 4 * 4 + a mod 4 * 16 div 16 = a" by simp
  then show ?case by simp
next
  case (3 a b)
  then have b: "b div 16 < 16" by (simp add: byte_div)
  have 1: "a div 4 * 4 + (a mod 4 * 16 + b div 16) div 16 = a"
    by (simp only: join_high(1)[OF b]) simp
  have 2: "(a mod 4 * 16 + b div 16) mod 16 * 16 + b mod 16 * 4 div 4 = b"
    by (simp only: join_high(2)[OF b]) simp
  from 1 2 show ?case by (simp only: b64_sextets.simps b64_decode.simps)
next
  case (4 a b c bs)
  then have b: "b div 16 < 16" and c: "c div 64 < 4" by (simp_all add: byte_div)
  have 1: "a div 4 * 4 + (a mod 4 * 16 + b div 16) div 16 = a"
    by (simp only: join_high(1)[OF b]) simp
  have 2: "(a mod 4 * 16 + b div 16) mod 16 * 16 + (b mod 16 * 4 + c div 64) div 4 = b"
    by (simp only: join_high(2)[OF b] join_low(1)[OF c]) simp
  have 3: "(b mod 16 * 4 + c div 64) mod 4 * 64 + c mod 64 = c"
    by (simp only: join_low(2)[OF c]) simp
  from 4 have "b64_decode (b64_sextets bs) = bs" by simp
  with 1 2 3 show ?case by (simp only: b64_sextets.simps b64_decode.simps)
qed simp

lemma length_sextets: "length (b64_sextets bs) mod 4 \<noteq> 1"
  by (induction bs rule: b64_sextets.induct) simp_all


lemma replace_all_simps:
  "replace_all c r [] = []"
  "replace_all c r (x # xs) = (if x = c then r else [x]) @ replace_all c r xs"
  by (simp_all add: replace_all_def)

lemma url_encode_char:
  assumes "i < 64"
  shows "replace_all 61 [] (replace_all 47 [95] (replace_all 43 [45] (b64_char i # xs))) =
         b64url_char i # replace_all 61 [] (replace_all 47 [95] (replace_all 43 [45] xs))"
proof -
  consider "i = 62" | "i = 63" | "i \<noteq> 62" "i \<noteq> 63" by blast
  then show ?thesis
  proof cases
    case 1
    then show ?thesis by (simp add: replace_all_simps b64url_char_def b64_char_def)
  next
    case 2
    then show ?thesis by (simp add: replace_all_simps b64url_char_def b64_char_def)
  next
    case 3
    then have "b64_char i \<noteq> 43" "b64_char i \<noteq> 47" "b64_char i \<noteq> 61"
      using assms b64_char_plus b64_char_slash b64_char_not(1) by simp_all
    with 3 show ?thesis by (simp add: replace_all_simps b64url_char_def)
  qed
qed

lemma url_encode_pad:
  "replace_all 61 [] (replace_all 47 [95] (replace_all 43 [45] (61 # xs))) =
   replace_all 61 [] (replace_all 47 [95] (replace_all 43 [45] xs))"
  by (simp add: replace_all_simps)

lemma url_encode:
  "list_all (\<lambda>b. b \<le> 255) bs \<Longrightarrow>
   replace_all 61 [] (replace_all 47 [95] (replace_all 43 [45] (b64_encode bs))) =
   map b64url_char (b64_sextets bs)"
proof (induction bs rule: b64_encode.induct)
  case 1
  show ?case by (simp add: replace_all_simps)
next
  case (2 a)
  then have "a div 4 < 64" "a mod 4 * 16 < 64" by (simp_all add: byte_div sextet_bounds)
  then show ?case by (simp add: url_encode_char url_encode_pad replace_all_simps(1))
next
  case (3 a b)
  then have "a div 4 < 64" "a mod 4 * 16 + b div 16 < 64" "b mod 16 * 4 < 64"
    by (simp_all add: byte_div sextet_bounds)
  then show ?case by (simp add: url_encode_char url_encode_pad replace_all_simps(1))
next
  case (4 a b c bs)
  then have "a div 4 < 64" "a mod 4 * 16 + b div 16 < 64" "b mod 16 * 4 + c div 64 < 64"
    "c mod 64 < 64"
    by (simp_all add: byte_div sextet_bounds)
  with 4 show ?case by (simp add: url_encode_char)
qed

lemma url_decode_char:
  assumes "i < 64"
  shows "replace_all 95 [47] (replace_all 45 [43] (b64url_char i # xs)) =
         b64_char i # replace_all 95 [47] (replace_all 45 [43] xs)"
proof -
  consider "i = 62" | "i = 63" | "i \<noteq> 62" "i \<noteq> 63" by blast
  then show ?thesis
  proof cases
    case 1
    then show ?thesis by (simp add: replace_all_simps b64url_char_def b64_char_def)
  next
    case 2
    then show ?thesis by (simp add: replace_all_simps b64url_char_def b64_char_def)
  next
    case 3
    then show ?thesis using b64_char_not(3,4)[OF assms]
      by (simp add: replace_all_simps b64url_char_def)
  qed
qed

lemma url_decode:
  "list_all (\<lambda>i. i < 64) sx \<Longrightarrow>
   replace_all 95 [47] (replace_all 45 [43] (map b64url_char sx)) = map b64_char sx"
  by (induction sx) (simp_all add: url_decode_char replace_all_simps(1))

lemma url_unreserved_char: "i < 64 \<Longrightarrow> url_unreserved (b64url_char i)"
proof -
  assume i: "i < 64"
  show ?thesis
  proof (cases "i = 62 \<or> i = 63")
    case True
    then show ?thesis by (auto simp: b64url_char_def url_unreserved_def)
  next
    case False
    then have "b64_char i \<noteq> 43" "b64_char i \<noteq> 47"
      using i b64_char_plus b64_char_slash by simp_all
    with b64_char_range[OF i] False show ?thesis
      unfolding b64url_char_def url_unreserved_def by auto
  qed
qed

lemma url_unreserved_sextets:
  "list_all (\<lambda>i. i < 64) sx \<Longrightarrow> list_all url_unreserved (map b64url_char sx)"
  by (induction sx) (simp_all add: url_unreserved_char)

lemma index_char_map:
  "list_all (\<lambda>i. i < 64) sx \<Longrightarrow> map (\<lambda>c. the (b64_index c)) (map b64_char sx) = sx"
  by (induction sx) (simp_all add: b64_index_char)

lemma no_whitespace_map:
  "list_all (\<lambda>i. i < 64) sx \<Longrightarrow>
   filter (\<lambda>c. \<not> is_ascii_whitespace c) (map b64_char sx) = map b64_char sx"
  by (induction sx) (simp_all add: b64_char_not)

lemma in_alphabet_map:
  "list_all (\<lambda>i. i < 64) sx \<Longrightarrow> \<not> list_ex (\<lambda>c. b64_index c = None) (map b64_char sx)"
  by (induction sx) (simp_all add: b64_index_char)

lemma strip_padding_alphabet:
  assumes "list_all (\<lambda>i. i < 64) sx"
  shows "strip_padding (map b64_char sx) = map b64_char sx"
proof (cases "sx = []")
  case True
  then show ?thesis by (simp add: strip_padding_def)
next
  case False
  then have "last sx < 64" using assms by (simp add: list_all_iff)
  then have "last (map b64_char sx) \<noteq> 61" using False b64_char_not(1) by (simp add: last_map)
  then show ?thesis by (simp add: strip_padding_def)
qed

lemma atob_alphabet:
  assumes "list_all (\<lambda>i. i < 64) sx" "length sx mod 4 \<noteq> 1"
  shows "atob (map b64_char sx) = Inr (b64_decode sx)"
  using assms(2)
  by (simp add: atob_def no_whitespace_map[OF assms(1)] strip_padding_alphabet[OF assms(1)]
      in_alphabet_map[OF assms(1)] index_char_map[OF assms(1)] del: map_map)

text \<open>The share link: what \<open>encodedData\<close> is, and that decoding gives the bytes back.\<close>

lemma atob_url_decode:
  assumes "list_all (\<lambda>b. b \<le> 255) bs"
  shows "atob (replace_all 95 [47] (replace_all 45 [43]
           (replace_all 61 [] (replace_all 47 [95] (replace_all 43 [45] (b64_encode bs)))))) =
         Inr bs"
  using length_sextets[of bs]
  by (simp add: url_encode[OF assms] url_decode[OF sextets_lt[OF assms]]
      atob_alphabet[OF sextets_lt[OF assms]] b64_decode_sextets[OF assms])


text \<open>The padded text that \<open>btoa\<close> writes, read back by \<open>atob\<close>.\<close>

lemma strip_padding_4:
  assumes "x4 \<noteq> 61" "ys = [] \<or> 2 \<le> length ys"
  shows "strip_padding (x1 # x2 # x3 # x4 # ys) = x1 # x2 # x3 # x4 # strip_padding ys"
proof (cases "ys = []")
  case True
  with assms(1) show ?thesis by (simp add: strip_padding_def)
next
  case False
  with assms(2) have l: "2 \<le> length ys" by simp
  then have b: "butlast ys \<noteq> []" by (cases ys rule: rev_cases) auto
  have 1: "length (x1 # x2 # x3 # x4 # ys) mod 4 = length ys mod 4" by simp
  have 2: "last (x1 # x2 # x3 # x4 # ys) = last ys" using False by simp
  have 3: "butlast (x1 # x2 # x3 # x4 # ys) = x1 # x2 # x3 # x4 # butlast ys" using False by simp
  have 4: "last (x1 # x2 # x3 # x4 # butlast ys) = last (butlast ys)" using b by simp
  have 5: "butlast (x1 # x2 # x3 # x4 # butlast ys) = x1 # x2 # x3 # x4 # butlast (butlast ys)"
    using b by simp
  show ?thesis
  proof (cases "length ys mod 4 = 0 \<and> last ys = 61")
    case out: False
    then have "strip_padding ys = ys" by (auto simp: strip_padding_def)
    moreover have "strip_padding (x1 # x2 # x3 # x4 # ys) = x1 # x2 # x3 # x4 # ys"
      unfolding strip_padding_def 1 2 using out by auto
    ultimately show ?thesis by simp
  next
    case pad: True
    show ?thesis
    proof (cases "last (butlast ys) = 61")
      case True
      then have "strip_padding ys = butlast (butlast ys)"
        using pad b False by (simp add: strip_padding_def)
      moreover have "strip_padding (x1 # x2 # x3 # x4 # ys) =
                     x1 # x2 # x3 # x4 # butlast (butlast ys)"
        unfolding strip_padding_def 1 2 3 4 5 using pad True by simp
      ultimately show ?thesis by simp
    next
      case one: False
      then have "strip_padding ys = butlast ys"
        using pad b False by (simp add: strip_padding_def)
      moreover have "strip_padding (x1 # x2 # x3 # x4 # ys) = x1 # x2 # x3 # x4 # butlast ys"
        unfolding strip_padding_def 1 2 3 4 5 using pad one by simp
      ultimately show ?thesis by simp
    qed
  qed
qed

lemma b64_encode_length: "b64_encode bs = [] \<or> 2 \<le> length (b64_encode bs)"
  by (induction bs rule: b64_encode.induct) simp_all

lemma strip_padding_encode:
  "list_all (\<lambda>b. b \<le> 255) bs \<Longrightarrow> strip_padding (b64_encode bs) = map b64_char (b64_sextets bs)"
proof (induction bs rule: b64_encode.induct)
  case 1
  show ?case by (simp add: strip_padding_def)
next
  case (2 a)
  show ?case by (simp add: strip_padding_def)
next
  case (3 a b)
  then have "b mod 16 * 4 < 64" by (simp add: sextet_bounds)
  then have "b64_char (b mod 16 * 4) \<noteq> 61" by (rule b64_char_not(1))
  then show ?case by (simp add: strip_padding_def)
next
  case (4 a b c bs)
  have "b64_char (c mod 64) \<noteq> 61" by (rule b64_char_not(1)) simp
  then have "strip_padding (b64_char (a div 4) # b64_char (a mod 4 * 16 + b div 16) #
               b64_char (b mod 16 * 4 + c div 64) # b64_char (c mod 64) # b64_encode bs) =
             b64_char (a div 4) # b64_char (a mod 4 * 16 + b div 16) #
             b64_char (b mod 16 * 4 + c div 64) # b64_char (c mod 64) # strip_padding (b64_encode bs)"
    using b64_encode_length[of bs] by (rule strip_padding_4)
  with 4 show ?case by simp
qed

lemma no_whitespace_encode:
  "list_all (\<lambda>b. b \<le> 255) bs \<Longrightarrow>
   filter (\<lambda>c. \<not> is_ascii_whitespace c) (b64_encode bs) = b64_encode bs"
proof (induction bs rule: b64_encode.induct)
  case 1
  show ?case by simp
next
  case (2 a)
  then have "a div 4 < 64" "a mod 4 * 16 < 64" by (simp_all add: byte_div sextet_bounds)
  then show ?case by (simp add: b64_char_not(2) is_ascii_whitespace_def[of 61])
next
  case (3 a b)
  then have "a div 4 < 64" "a mod 4 * 16 + b div 16 < 64" "b mod 16 * 4 < 64"
    by (simp_all add: byte_div sextet_bounds)
  then show ?case by (simp add: b64_char_not(2) is_ascii_whitespace_def[of 61])
next
  case (4 a b c bs)
  then have "a div 4 < 64" "a mod 4 * 16 + b div 16 < 64" "b mod 16 * 4 + c div 64 < 64"
    "c mod 64 < 64"
    by (simp_all add: byte_div sextet_bounds)
  with 4 show ?case by (simp add: b64_char_not(2))
qed

lemma atob_b64_encode:
  assumes "list_all (\<lambda>b. b \<le> 255) bs"
  shows "atob (b64_encode bs) = Inr bs"
proof -
  note sx = sextets_lt[OF assms]
  have "atob (b64_encode bs) =
        (let d = map b64_char (b64_sextets bs)
         in if length d mod 4 = 1 then Inl InvalidCharacterError
            else if list_ex (\<lambda>c. b64_index c = None) d then Inl InvalidCharacterError
            else Inr (b64_decode (map (\<lambda>c. the (b64_index c)) d)))"
    unfolding atob_def no_whitespace_encode[OF assms] strip_padding_encode[OF assms] ..
  then show ?thesis
    using length_sextets[of bs]
    by (simp add: in_alphabet_map[OF sx] index_char_map[OF sx] b64_decode_sextets[OF assms]
        del: map_map)
qed

lemma atob_btoa: "btoa s = Inr e \<Longrightarrow> atob e = Inr s"
proof -
  assume b: "btoa s = Inr e"
  then have l: "list_all (\<lambda>b. b \<le> 255) s"
    by (auto simp: btoa_def list_all_iff list_ex_iff not_less split: if_splits)
  from b have "e = b64_encode s" by (simp add: btoa_def split: if_splits)
  with atob_b64_encode[OF l] show ?thesis by simp
qed

end
